theory Spec2Isabelle
  imports Complex_Main
begin

section \<open>JavaScript values, strings and numbers\<close>

text \<open>
  The service of \<^verbatim>\<open>src/services/xkcdService.js\<close> receives untyped JavaScript arguments.
  \<open>jsval\<close> has the kinds of value the service tells apart: a finite number is a
  rational (every finite double is one), \<open>JNonFinite\<close> stands for NaN and the two
  infinities.  A string is a list of characters, each character a UTF-16 code unit below
  256 (the Latin-1 range), so that \<open>length\<close> is JavaScript's \<^verbatim>\<open>.length\<close>; white space and
  case folding are JavaScript's on that range.
\<close>

datatype jsval = JUndefined | JNull | JBoolean bool | JNumber rat | JNonFinite | JString string

text \<open>\<^verbatim>\<open>Number.isInteger(v)\<close>: true for a finite number without fractional part only.\<close>

fun Number_isInteger :: "jsval \<Rightarrow> bool" where
  "Number_isInteger (JNumber r) = (of_int \<lfloor>r\<rfloor> = r)"
| "Number_isInteger _ = False"

text \<open>The number held by a value; read only where \<open>Number_isInteger\<close> has answered true.\<close>

fun number :: "jsval \<Rightarrow> rat" where
  "number (JNumber r) = r"
| "number _ = 0"

text \<open>A default parameter \<^verbatim>\<open>p = d\<close> takes the default exactly when the argument is undefined.\<close>

fun default_arg :: "jsval \<Rightarrow> jsval \<Rightarrow> jsval" where
  "default_arg d JUndefined = d"
| "default_arg d v = v"

text \<open>
  Decimal rendering of an integer.  A template literal renders an integer of magnitude
  up to \<open>2^53\<close> (and every even one up to \<open>2^54\<close>) so.  A larger double it writes with
  the fewest digits that tell it from its neighbours, and from \<open>10^21\<close> on with an
  exponent, which is not modelled: there the model writes other digits than JavaScript,
  and both write different numbers differently.
\<close>

definition digit :: "nat \<Rightarrow> char" where
  "digit d = ''0123456789'' ! d"

fun digits :: "nat \<Rightarrow> string" where
  "digits n = (if n < 10 then [digit n] else digits (n div 10) @ [digit (n mod 10)])"

declare digits.simps [simp del]

definition toString :: "int \<Rightarrow> string" where
  "toString i = (if i < 0 then CHR ''-'' # digits (nat (- i)) else digits (nat i))"

text \<open>
  \<^verbatim>\<open>String.prototype.trim\<close> strips white space and line terminators: below 256 these are
  the code units 9 to 13, the space 0x20 and the no-break space 0xA0.
  \<^verbatim>\<open>toLowerCase\<close> folds A to Z and the Latin-1 capitals 0xC0 to 0xDE other than the
  multiplication sign 0xD7, each to the code unit 0x20 above it.
\<close>

definition isSpace :: "char \<Rightarrow> bool" where
  "isSpace c =
     (c \<in> set [CHR 0x09, CHR 0x0A, CHR 0x0B, CHR 0x0C, CHR 0x0D, CHR 0x20, CHR 0xA0])"

definition trim :: "string \<Rightarrow> string" where
  "trim s = rev (dropWhile isSpace (rev (dropWhile isSpace s)))"

definition upperChars :: string where
  "upperChars =
     ''ABCDEFGHIJKLMNOPQRSTUVWXYZ'' @
     [CHR 0xC0, CHR 0xC1, CHR 0xC2, CHR 0xC3, CHR 0xC4, CHR 0xC5, CHR 0xC6, CHR 0xC7,
      CHR 0xC8, CHR 0xC9, CHR 0xCA, CHR 0xCB, CHR 0xCC, CHR 0xCD, CHR 0xCE, CHR 0xCF,
      CHR 0xD0, CHR 0xD1, CHR 0xD2, CHR 0xD3, CHR 0xD4, CHR 0xD5, CHR 0xD6, CHR 0xD8,
      CHR 0xD9, CHR 0xDA, CHR 0xDB, CHR 0xDC, CHR 0xDD, CHR 0xDE]"

definition lowerChars :: string where
  "lowerChars =
     ''abcdefghijklmnopqrstuvwxyz'' @
     [CHR 0xE0, CHR 0xE1, CHR 0xE2, CHR 0xE3, CHR 0xE4, CHR 0xE5, CHR 0xE6, CHR 0xE7,
      CHR 0xE8, CHR 0xE9, CHR 0xEA, CHR 0xEB, CHR 0xEC, CHR 0xED, CHR 0xEE, CHR 0xEF,
      CHR 0xF0, CHR 0xF1, CHR 0xF2, CHR 0xF3, CHR 0xF4, CHR 0xF5, CHR 0xF6, CHR 0xF8,
      CHR 0xF9, CHR 0xFA, CHR 0xFB, CHR 0xFC, CHR 0xFD, CHR 0xFE]"

definition lowerChar :: "char \<Rightarrow> char" where
  "lowerChar c = (case map_of (zip upperChars lowerChars) c of None \<Rightarrow> c | Some l \<Rightarrow> l)"

definition toLowerCase :: "string \<Rightarrow> string" where
  "toLowerCase s = map lowerChar s"

fun includes_str :: "string \<Rightarrow> string \<Rightarrow> bool" where
  "includes_str [] q = (q = [])"
| "includes_str (h # hs) q = (take (length q) (h # hs) = q \<or> includes_str hs q)"

section \<open>Data model\<close>

text \<open>
  The JSON object the upstream archive answers with, as \<^verbatim>\<open>response.json()\<close> parses it;
  \<open>transcript\<close> may be missing.  Its \<open>num\<close> is a double of integer value; the model admits
  every integer.
\<close>

record raw_comic =
  num :: int
  raw_title :: string
  raw_img :: string
  raw_alt :: string
  raw_transcript :: "string option"
  raw_year :: int
  raw_month :: int
  raw_day :: int
  raw_safe_title :: string

record comic =
  comic_id :: int
  title :: string
  img :: string
  alt :: string
  transcript :: string
  year :: int
  month :: int
  day :: int
  safe_title :: string

text \<open>\<^verbatim>\<open>processComic\<close> (lines 160-172); \<^verbatim>\<open>comic.transcript || ''\<close> fills a missing transcript.\<close>

definition processComic :: "raw_comic \<Rightarrow> comic" where
  "processComic c =
     \<lparr>comic_id = num c, title = raw_title c, img = raw_img c, alt = raw_alt c,
      transcript = (case raw_transcript c of None \<Rightarrow> [] | Some t \<Rightarrow> t),
      year = raw_year c, month = raw_month c, day = raw_day c,
      safe_title = raw_safe_title c\<rparr>"

text \<open>A thrown \<^verbatim>\<open>Error\<close>: the service tells errors apart by their message only.\<close>

datatype error = Error (message: string)

record cache_entry =
  data :: comic
  timestamp :: int

text \<open>
  The response object of \<^verbatim>\<open>fetch\<close>; \<open>json\<close> is what \<^verbatim>\<open>response.json()\<close> yields: the
  parsed body, or the error it throws.  A call of \<^verbatim>\<open>fetch\<close> either rejects with an
  error or resolves, possibly (with a stand-in for \<^verbatim>\<open>fetch\<close>) to a falsy value.
\<close>

record response =
  ok :: bool
  status :: int
  statusText :: string
  json :: "error + raw_comic"

datatype fetch_outcome = Rejects error | Resolves "response option"

text \<open>
  What the module constant \<^verbatim>\<open>fetch = require('node-fetch')\<close> is bound to: the guards at
  the head of every operation ask \<^verbatim>\<open>typeof fetch !== 'function'\<close> and
  \<^verbatim>\<open>isJestMock(fetch)\<close>.
\<close>

datatype fetch_binding = NotAFunction | Function | JestMockFunction

text \<open>
  The environment of a run.  Its answers are indexed by how many have been consumed:
  \<open>clock w k\<close> is the value of the \<open>k\<close>-th \<^verbatim>\<open>Date.now()\<close>, \<open>net w k url\<close> the outcome
  of the \<open>k\<close>-th \<^verbatim>\<open>fetch\<close> when it asks for \<open>url\<close>, \<open>random w k\<close> the \<open>k\<close>-th
  \<^verbatim>\<open>Math.random()\<close>.
\<close>

record world =
  fetch_binding :: fetch_binding
  clock :: "nat \<Rightarrow> int"
  net :: "nat \<Rightarrow> string \<Rightarrow> fetch_outcome"
  random :: "nat \<Rightarrow> rat"

text \<open>
  The service object: \<open>cache\<close> and \<open>nextCachedPenalty\<close> are its fields (lines 10-13).
  The other components record what the run has consumed from its environment: the
  number of clock reads, the URLs fetched so far in order, the number of random draws,
  and the milliseconds spent in \<^verbatim>\<open>setTimeout\<close>.
\<close>

record state =
  cache :: "string \<rightharpoonup> cache_entry"
  nextCachedPenalty :: bool
  ticks :: nat
  requests :: "string list"
  draws :: nat
  slept :: nat

definition baseUrl :: string where
  "baseUrl = ''https://xkcd.com''"

definition cacheTimeout :: int where
  "cacheTimeout = 5 * 60 * 1000"

text \<open>The templates \<^verbatim>\<open>`${this.baseUrl}/info.0.json`\<close>, \<^verbatim>\<open>`${this.baseUrl}/${id}/info.0.json`\<close>
  and \<^verbatim>\<open>`comic-${id}`\<close>.\<close>

definition latestUrl :: string where
  "latestUrl = baseUrl @ ''/info.0.json''"

definition comicUrl :: "int \<Rightarrow> string" where
  "comicUrl n = baseUrl @ ''/'' @ toString n @ ''/info.0.json''"

definition comicKey :: "int \<Rightarrow> string" where
  "comicKey n = ''comic-'' @ toString n"

text \<open>The constructor (lines 8-14), before anything has been consumed.\<close>

definition constructor :: state where
  "constructor = \<lparr>cache = Map.empty, nextCachedPenalty = False, ticks = 0, requests = [],
                   draws = 0, slept = 0\<rparr>"

definition Date_now :: "world \<Rightarrow> state \<Rightarrow> int \<times> state" where
  "Date_now w s = (clock w (ticks s), s\<lparr>ticks := Suc (ticks s)\<rparr>)"

definition fetch :: "world \<Rightarrow> string \<Rightarrow> state \<Rightarrow> fetch_outcome \<times> state" where
  "fetch w url s = (net w (length (requests s)) url, s\<lparr>requests := requests s @ [url]\<rparr>)"

definition Math_random :: "world \<Rightarrow> state \<Rightarrow> rat \<times> state" where
  "Math_random w s = (random w (draws s), s\<lparr>draws := Suc (draws s)\<rparr>)"

definition setTimeout :: "nat \<Rightarrow> state \<Rightarrow> state" where
  "setTimeout ms s = s\<lparr>slept := slept s + ms\<rparr>"

text \<open>
  The message of lines 38-40 and 81-83:
  \<^verbatim>\<open>HTTP ${response?.status || 500}: ${response?.statusText || 'Internal Server Error'}\<close>.
\<close>

definition http_error :: "response option \<Rightarrow> error" where
  "http_error r =
     Error (''HTTP ''
       @ toString (case r of None \<Rightarrow> 500 | Some x \<Rightarrow> if status x = 0 then 500 else status x)
       @ '': ''
       @ (case r of None \<Rightarrow> ''Internal Server Error''
          | Some x \<Rightarrow> if statusText x = [] then ''Internal Server Error'' else statusText x))"

section \<open>getLatest\<close>

text \<open>The body of the \<^verbatim>\<open>try\<close> block of lines 35-54; \<open>Inl\<close> is an error thrown inside it.\<close>

definition getLatest_try :: "world \<Rightarrow> string \<Rightarrow> state \<Rightarrow> (error + comic) \<times> state" where
  "getLatest_try w cacheKey s =
     (case fetch w latestUrl s of
        (Rejects e, s1) \<Rightarrow> (Inl e, s1)
      | (Resolves None, s1) \<Rightarrow> (Inl (http_error None), s1)
      | (Resolves (Some r), s1) \<Rightarrow>
          if \<not> ok r then (Inl (http_error (Some r)), s1)
          else (case json r of
                  Inl e \<Rightarrow> (Inl e, s1)
                | Inr c \<Rightarrow>
                    (let processedComic = processComic c in
                     case Date_now w s1 of
                       (now, s2) \<Rightarrow>
                         (Inr processedComic,
                          setTimeout 20
                            (s2\<lparr>cache := (cache s2)(cacheKey \<mapsto>
                                            \<lparr>data = processedComic, timestamp = now\<rparr>),
                                nextCachedPenalty := True\<rparr>)))))"

text \<open>The cold path: the \<^verbatim>\<open>try\<close> block with its \<^verbatim>\<open>catch\<close> (lines 55-57).\<close>

definition getLatest_cold :: "world \<Rightarrow> string \<Rightarrow> state \<Rightarrow> (error + comic) \<times> state" where
  "getLatest_cold w cacheKey s =
     (case getLatest_try w cacheKey s of
        (Inl e, s1) \<Rightarrow> (Inl (Error (''Failed to fetch latest comic: '' @ message e)), s1)
      | (Inr c, s1) \<Rightarrow> (Inr c, s1))"

text \<open>
  \<^verbatim>\<open>getLatest\<close> (lines 16-58).  The clock is read only when the cache holds an entry
  (\<^verbatim>\<open>cached && Date.now() - cached.timestamp < this.cacheTimeout\<close>).
\<close>

definition getLatest :: "world \<Rightarrow> state \<Rightarrow> (error + comic) \<times> state" where
  "getLatest w s =
     (if fetch_binding w = NotAFunction
      then (Inl (Error ''getLatest method not implemented''), s)
      else
        (let cacheKey = ''latest'' in
         case cache s cacheKey of
           None \<Rightarrow> getLatest_cold w cacheKey s
         | Some cached \<Rightarrow>
             (case Date_now w s of
                (now, s1) \<Rightarrow>
                  if now - timestamp cached < cacheTimeout
                  then (if nextCachedPenalty s1
                        then (Inr (data cached), setTimeout 5 (s1\<lparr>nextCachedPenalty := False\<rparr>))
                        else (Inr (data cached), s1))
                  else getLatest_cold w cacheKey s1)))"

section \<open>getById\<close>

text \<open>The body of the \<^verbatim>\<open>try\<close> block of lines 75-89.\<close>

definition getById_try :: "world \<Rightarrow> int \<Rightarrow> string \<Rightarrow> state \<Rightarrow> (error + comic) \<times> state" where
  "getById_try w n cacheKey s =
     (case fetch w (comicUrl n) s of
        (Rejects e, s1) \<Rightarrow> (Inl e, s1)
      | (Resolves None, s1) \<Rightarrow> (Inl (Error ''Comic not found''), s1)
      | (Resolves (Some r), s1) \<Rightarrow>
          if status r = 404 then (Inl (Error ''Comic not found''), s1)
          else if \<not> ok r then (Inl (http_error (Some r)), s1)
          else (case json r of
                  Inl e \<Rightarrow> (Inl e, s1)
                | Inr c \<Rightarrow>
                    (let processedComic = processComic c in
                     case Date_now w s1 of
                       (now, s2) \<Rightarrow>
                         (Inr processedComic,
                          s2\<lparr>cache := (cache s2)(cacheKey \<mapsto>
                                          \<lparr>data = processedComic, timestamp = now\<rparr>)\<rparr>))))"

text \<open>The \<^verbatim>\<open>try\<close> block with its \<^verbatim>\<open>catch\<close> (lines 90-92), which wraps every error thrown inside.\<close>

definition getById_cold :: "world \<Rightarrow> int \<Rightarrow> string \<Rightarrow> state \<Rightarrow> (error + comic) \<times> state" where
  "getById_cold w n cacheKey s =
     (case getById_try w n cacheKey s of
        (Inl e, s1) \<Rightarrow> (Inl (Error (''Failed to fetch comic by ID: '' @ message e)), s1)
      | (Inr c, s1) \<Rightarrow> (Inr c, s1))"

text \<open>\<^verbatim>\<open>getById\<close> (lines 60-93).\<close>

definition getById :: "world \<Rightarrow> jsval \<Rightarrow> state \<Rightarrow> (error + comic) \<times> state" where
  "getById w idv s =
     (if fetch_binding w \<noteq> Function
      then (Inl (Error ''getById method not implemented''), s)
      else if \<not> Number_isInteger idv \<or> number idv \<le> 0
      then (Inl (Error ''Invalid comic ID''), s)
      else
        (let n = \<lfloor>number idv\<rfloor>; cacheKey = comicKey n in
         case cache s cacheKey of
           None \<Rightarrow> getById_cold w n cacheKey s
         | Some cached \<Rightarrow>
             (case Date_now w s of
                (now, s1) \<Rightarrow>
                  if now - timestamp cached < cacheTimeout
                  then (Inr (data cached), s1)
                  else getById_cold w n cacheKey s1)))"

section \<open>getRandom\<close>

text \<open>
  The loop of lines 105-113 with \<open>k\<close> iterations left: \<open>Some\<close> is a \<^verbatim>\<open>return\<close> or a
  \<^verbatim>\<open>throw\<close> out of the loop, \<open>None\<close> its falling through to line 115.
\<close>

fun getRandom_loop :: "world \<Rightarrow> int \<Rightarrow> nat \<Rightarrow> state \<Rightarrow> (error + comic) option \<times> state" where
  "getRandom_loop w maxId 0 s = (None, s)"
| "getRandom_loop w maxId (Suc k) s =
     (case Math_random w s of
        (r, s1) \<Rightarrow>
          (let randomId = \<lfloor>r * of_int maxId\<rfloor> + 1 in
           case getById w (JNumber (of_int randomId)) s1 of
             (Inr c, s2) \<Rightarrow> (Some (Inr c), s2)
           | (Inl e, s2) \<Rightarrow>
               if message e = ''Comic not found'' then getRandom_loop w maxId k s2
               else (Some (Inl e), s2)))"

text \<open>\<^verbatim>\<open>getRandom\<close> (lines 95-119): the guard lies outside the \<^verbatim>\<open>try\<close>, all the rest inside.\<close>

definition getRandom :: "world \<Rightarrow> state \<Rightarrow> (error + comic) \<times> state" where
  "getRandom w s =
     (if fetch_binding w \<noteq> Function
      then (Inl (Error ''getRandom method not implemented''), s)
      else
        (case getLatest w s of
           (Inl e, s1) \<Rightarrow> (Inl (Error (''Failed to fetch random comic: '' @ message e)), s1)
         | (Inr latest, s1) \<Rightarrow>
             (case getRandom_loop w (comic_id latest) 5 s1 of
                (Some (Inr c), s2) \<Rightarrow> (Inr c, s2)
              | (Some (Inl e), s2) \<Rightarrow>
                  (Inl (Error (''Failed to fetch random comic: '' @ message e)), s2)
              | (None, s2) \<Rightarrow> (Inr latest, s2))))"

section \<open>Arithmetic on doubles\<close>

text \<open>
  The numbers of the service are IEEE 754 doubles.  Where it subtracts, adds or multiplies
  integers, the result is the exact result rounded to the nearest double, ties going to
  the even significand: \<open>nearest_double\<close>.  Integers of magnitude up to \<open>2^53\<close> are
  doubles, a larger one is rounded to 53 significant bits.  A result of \<open>2^1024\<close> or more
  is \<^verbatim>\<open>Infinity\<close>.
\<close>

fun bit_length :: "nat \<Rightarrow> nat" where
  "bit_length n = (if n = 0 then 0 else Suc (bit_length (n div 2)))"

declare bit_length.simps [simp del]

text \<open>\<open>n\<close> rounded to a multiple of \<open>2^e\<close>, a tie going to the even multiple.\<close>

definition round_to :: "nat \<Rightarrow> nat \<Rightarrow> nat" where
  "round_to e n =
     (let q = n div 2 ^ e; r = n mod 2 ^ e
      in if 2 * r < 2 ^ e \<or> (2 * r = 2 ^ e \<and> even q) then q * 2 ^ e else (q + 1) * 2 ^ e)"

definition nearest_double_nat :: "nat \<Rightarrow> nat" where
  "nearest_double_nat n = (if n < 2 ^ 53 then n else round_to (bit_length n - 53) n)"

definition nearest_double :: "int \<Rightarrow> int" where
  "nearest_double i =
     (if i < 0 then - int (nearest_double_nat (nat (- i))) else int (nearest_double_nat (nat i)))"

text \<open>A number that is an integer or \<^verbatim>\<open>Infinity\<close>.\<close>

datatype jsnum = Finite int | Infinity

definition overflow :: "int \<Rightarrow> jsnum" where
  "overflow v = (if 2 ^ 1024 \<le> v then Infinity else Finite v)"

text \<open>The product and the sum of numbers that are not negative.\<close>

definition times_double :: "int \<Rightarrow> int \<Rightarrow> jsnum" where
  "times_double a b = overflow (nearest_double (a * b))"

definition plus_double :: "jsnum \<Rightarrow> int \<Rightarrow> jsnum" where
  "plus_double a b = (case a of Infinity \<Rightarrow> Infinity | Finite x \<Rightarrow> overflow (nearest_double (x + b)))"

section \<open>search\<close>

record pagination =
  page :: int
  limit :: int
  pages :: int
  offset :: jsnum

record search_result =
  query :: string
  results :: "comic list"
  total :: int
  pagination :: pagination

text \<open>
  The loop of lines 137-145, about to test \<^verbatim>\<open>id >= start\<close> with \<open>i\<close> for \<^verbatim>\<open>id\<close>; \<^verbatim>\<open>id--\<close>
  subtracts in doubles.  The \<^verbatim>\<open>catch\<close> block has the one statement
  \<^verbatim>\<open>if (err.message === 'Comic not found') continue;\<close> and then ends, so the loop goes on
  after it either way.  The loop need not end: the result is \<open>None\<close> when it does not.
\<close>

partial_function (option) search_scan ::
  "world \<Rightarrow> string \<Rightarrow> int \<Rightarrow> int \<Rightarrow> comic list \<Rightarrow> state \<Rightarrow> (comic list \<times> state) option" where
  "search_scan w q i start acc s =
     (if i \<ge> start
      then (case getById w (JNumber (of_int i)) s of
              (Inr c, s1) \<Rightarrow>
                (let hay = toLowerCase (title c @ '' '' @ transcript c) in
                 search_scan w q (nearest_double (i - 1)) start
                   (if includes_str hay q then acc @ [c] else acc) s1)
            | (Inl err, s1) \<Rightarrow>
                if message err = ''Comic not found''
                then search_scan w q (nearest_double (i - 1)) start acc s1
                else search_scan w q (nearest_double (i - 1)) start acc s1)
      else Some (acc, s))"

text \<open>
  \<^verbatim>\<open>Array.prototype.slice\<close>: a bound is cut at the length of the array, a negative bound
  counts from its end, and \<^verbatim>\<open>Infinity\<close> is beyond every length.
\<close>

definition clip :: "nat \<Rightarrow> jsnum \<Rightarrow> nat" where
  "clip len b =
     (case b of
        Infinity \<Rightarrow> len
      | Finite k \<Rightarrow> if k < 0 then nat (max (int len + k) 0) else min (nat k) len)"

definition slice :: "'a list \<Rightarrow> jsnum \<Rightarrow> jsnum \<Rightarrow> 'a list" where
  "slice xs from until =
     (let k = clip (length xs) from; final = clip (length xs) until
      in take (final - k) (drop k xs))"

text \<open>Lines 147-148: the page and the limit that are used.\<close>

definition safePage :: "jsval \<Rightarrow> int" where
  "safePage pageArg =
     (if Number_isInteger pageArg \<and> number pageArg > 0 then \<lfloor>number pageArg\<rfloor> else 1)"

definition safeLimit :: "jsval \<Rightarrow> int" where
  "safeLimit limitArg =
     (if Number_isInteger limitArg \<and> number limitArg > 0
      then min \<lfloor>number limitArg\<rfloor> 50 else 10)"

text \<open>
  Lines 149-157: the result object built from the collected matches.  The offset is a
  difference and a product of doubles.  \<^verbatim>\<open>Math.ceil(results.length / safeLimit)\<close> is the
  exact ceiling: the quotient of an array length (below \<open>2^32\<close>) by a limit of at most
  50 is, unless an integer, at least 1/50 away from every integer, which is far more than
  its rounding.
\<close>

definition paginate :: "string \<Rightarrow> jsval \<Rightarrow> jsval \<Rightarrow> comic list \<Rightarrow> search_result" where
  "paginate trimmed pageArg limitArg matches =
     (let offs = times_double (nearest_double (safePage pageArg - 1)) (safeLimit limitArg);
          pgs = max 1 \<lceil>(of_nat (length matches) :: rat) / of_int (safeLimit limitArg)\<rceil>
      in \<lparr>query = trimmed,
          results = slice matches offs (plus_double offs (safeLimit limitArg)),
          total = int (length matches),
          pagination = \<lparr>page = safePage pageArg, limit = safeLimit limitArg,
                        pages = pgs, offset = offs\<rparr>\<rparr>)"

text \<open>
  \<^verbatim>\<open>search\<close> (lines 121-158); the call of \<^verbatim>\<open>getLatest\<close> is not inside any \<^verbatim>\<open>try\<close>.  The
  result is \<open>None\<close> when the loop does not end.
\<close>

definition search ::
  "world \<Rightarrow> jsval \<Rightarrow> jsval \<Rightarrow> jsval \<Rightarrow> state \<Rightarrow> ((error + search_result) \<times> state) option" where
  "search w qv pv lv s =
     (let pageArg = default_arg (JNumber 1) pv; limitArg = default_arg (JNumber 10) lv in
      if fetch_binding w \<noteq> Function
      then Some (Inl (Error ''search method not implemented''), s)
      else (case qv of
              JString qs \<Rightarrow>
                if length (trim qs) < 1 \<or> length (trim qs) > 100
                then Some (Inl (Error ''Invalid search query''), s)
                else
                  (let q = toLowerCase (trim qs) in
                   case getLatest w s of
                     (Inl e, s1) \<Rightarrow> Some (Inl e, s1)
                   | (Inr latest, s1) \<Rightarrow>
                       (let maxId = comic_id latest;
                            start = max 1 (nearest_double (maxId - 30)) in
                        case search_scan w q maxId start [] s1 of
                          None \<Rightarrow> None
                        | Some (matches, s2) \<Rightarrow>
                            Some (Inr (paginate (trim qs) pageArg limitArg matches), s2)))
            | _ \<Rightarrow> Some (Inl (Error ''Invalid search query''), s)))"

section \<open>Predicates and sample archives used in the statements\<close>

text \<open>
  The upstream answers a request for comic \<open>n\<close> with a comic numbered \<open>n\<close>, and the cache
  holds under the key of \<open>n\<close> a comic numbered \<open>n\<close>.
\<close>

definition upstream_consistent :: "world \<Rightarrow> bool" where
  "upstream_consistent w =
     (\<forall>k n r raw. 0 < n \<and> net w k (comicUrl n) = Resolves (Some r) \<and> json r = Inr raw
                   \<longrightarrow> num raw = n)"

definition cache_consistent :: "state \<Rightarrow> bool" where
  "cache_consistent s =
     (\<forall>n e. 0 < n \<and> cache s (comicKey n) = Some e \<longrightarrow> comic_id (data e) = n)"

text \<open>
  What one pass of the loop of \<open>search_scan\<close> leaves in \<^verbatim>\<open>results\<close>, given the outcome of
  its \<open>getById\<close>.
\<close>

definition collect :: "string \<Rightarrow> comic list \<Rightarrow> error + comic \<Rightarrow> comic list" where
  "collect q acc r =
     (case r of
        Inl err \<Rightarrow> acc
      | Inr c \<Rightarrow>
          if includes_str (toLowerCase (title c @ '' '' @ transcript c)) q then acc @ [c]
          else acc)"

text \<open>A number of the service is at or beyond a length.\<close>

definition at_or_beyond :: "jsnum \<Rightarrow> nat \<Rightarrow> bool" where
  "at_or_beyond x n = (case x of Infinity \<Rightarrow> True | Finite k \<Rightarrow> int n \<le> k)"

text \<open>
  The words of the specification, "clamp limit to [1,50]", for comparison with
  \<open>safeLimit\<close>.
\<close>

definition spec_clamp :: "int \<Rightarrow> int \<Rightarrow> int \<Rightarrow> int" where
  "spec_clamp lo hi x = max lo (min hi x)"

definition sample_raw :: "int \<Rightarrow> string \<Rightarrow> raw_comic" where
  "sample_raw n t =
     \<lparr>num = n, raw_title = t, raw_img = ''https://imgs.xkcd.com/comics/sample.png'',
      raw_alt = ''hover text'', raw_transcript = None, raw_year = 2025, raw_month = 10,
      raw_day = 31, raw_safe_title = t\<rparr>"

definition found :: "raw_comic \<Rightarrow> fetch_outcome" where
  "found c = Resolves (Some \<lparr>ok = True, status = 200, statusText = ''OK'', json = Inr c\<rparr>)"

definition refused :: "int \<Rightarrow> string \<Rightarrow> fetch_outcome" where
  "refused code text =
     Resolves (Some \<lparr>ok = False, status = code, statusText = text,
                     json = Inl (Error ''invalid json response body'')\<rparr>)"

text \<open>Three comics, all present; the clock advances by \<open>step\<close> at every reading.\<close>

definition small_archive :: "int \<Rightarrow> world" where
  "small_archive step =
     \<lparr>fetch_binding = Function, clock = (\<lambda>k. step * int k),
      net = (\<lambda>k url. if url = latestUrl then found (sample_raw 3 ''Python Tools'')
                    else if url = comicUrl 3 then found (sample_raw 3 ''Python Tools'')
                    else if url = comicUrl 2 then found (sample_raw 2 ''Barrel'')
                    else if url = comicUrl 1 then found (sample_raw 1 ''python'')
                    else refused 404 ''Not Found''),
      random = (\<lambda>k. 1 / 2)\<rparr>"

text \<open>The latest comic is number 807 and every single comic is reported missing.\<close>

definition gap_archive :: world where
  "gap_archive =
     \<lparr>fetch_binding = Function, clock = (\<lambda>k. int k),
      net = (\<lambda>k url. if url = latestUrl then found (sample_raw 807 ''Connected'')
                    else refused 404 ''Not Found''),
      random = (\<lambda>k. 1 / 2)\<rparr>"

text \<open>Two comics; the request for number 2 is answered with status 503.\<close>

definition flaky_archive :: world where
  "flaky_archive =
     \<lparr>fetch_binding = Function, clock = (\<lambda>k. int k),
      net = (\<lambda>k url. if url = latestUrl then found (sample_raw 2 ''Petit Trees'')
                    else if url = comicUrl 2 then refused 503 ''Service Unavailable''
                    else if url = comicUrl 1 then found (sample_raw 1 ''Python'')
                    else refused 404 ''Not Found''),
      random = (\<lambda>k. 1 / 2)\<rparr>"

text \<open>Two comics, each answered under the number of the other.\<close>

definition mislabelled :: world where
  "mislabelled =
     \<lparr>fetch_binding = Function, clock = (\<lambda>k. int k),
      net = (\<lambda>k url. if url = latestUrl then found (sample_raw 2 ''Python two'')
                    else if url = comicUrl 2 then found (sample_raw 1 ''Python one'')
                    else if url = comicUrl 1 then found (sample_raw 2 ''Python two'')
                    else refused 404 ''Not Found''),
      random = (\<lambda>k. 1 / 2)\<rparr>"

text \<open>The latest comic is number \<open>2^53 + 4\<close> and every single comic is reported missing.\<close>

definition huge_archive :: world where
  "huge_archive =
     \<lparr>fetch_binding = Function, clock = (\<lambda>k. int k),
      net = (\<lambda>k url. if url = latestUrl then found (sample_raw 9007199254740996 ''Far ahead'')
                    else refused 404 ''Not Found''),
      random = (\<lambda>k. 1 / 2)\<rparr>"

text \<open>No request gets through.\<close>

definition unreachable :: world where
  "unreachable =
     \<lparr>fetch_binding = Function, clock = (\<lambda>k. int k),
      net = (\<lambda>k url. Rejects (Error ''connect ECONNREFUSED'')),
      random = (\<lambda>k. 1 / 2)\<rparr>"

section \<open>Rounding to the nearest double\<close>

lemma bit_length_bounds: "0 < n \<Longrightarrow> 2 ^ (bit_length n - 1) \<le> n \<and> n < 2 ^ bit_length n"
proof (induction n rule: bit_length.induct)
  case (1 n)
  show ?case
  proof (cases "n div 2 = 0")
    case True
    with "1.prems" have "n = 1" by (cases n) auto
    then show ?thesis by (simp add: bit_length.simps)
  next
    case False
    with "1.IH" "1.prems" have ih: "2 ^ (bit_length (n div 2) - 1) \<le> n div 2"
      "n div 2 < 2 ^ bit_length (n div 2)" by auto
    from False have pos: "0 < bit_length (n div 2)" by (subst bit_length.simps) simp
    have eq: "bit_length n = Suc (bit_length (n div 2))"
      using "1.prems" by (subst bit_length.simps) simp
    from ih(1) have "2 * 2 ^ (bit_length (n div 2) - 1) \<le> n" by linarith
    moreover have "2 * 2 ^ (bit_length (n div 2) - 1) = (2::nat) ^ bit_length (n div 2)"
      using pos by (cases "bit_length (n div 2)") auto
    moreover from ih(2) have "n < 2 * 2 ^ bit_length (n div 2)" by linarith
    ultimately show ?thesis by (simp add: eq)
  qed
qed

lemma bit_length_mono: "a \<le> b \<Longrightarrow> bit_length a \<le> bit_length b"
proof (cases "a = 0")
  case True
  then show ?thesis by (simp add: bit_length.simps)
next
  case False
  assume ab: "a \<le> b"
  with False have "0 < a" "0 < b" by auto
  from bit_length_bounds[OF this(1)] bit_length_bounds[OF this(2)] ab
  have "(2::nat) ^ (bit_length a - 1) < 2 ^ bit_length b" by linarith
  then have "bit_length a - 1 < bit_length b" by (simp add: power_strict_increasing_iff)
  then show ?thesis by linarith
qed

lemma round_to_lower: "(n div 2 ^ e) * 2 ^ e \<le> round_to e n"
  by (simp add: round_to_def Let_def)

lemma round_to_upper: "round_to e n \<le> (n div 2 ^ e + 1) * 2 ^ e"
  by (simp add: round_to_def Let_def)

lemma round_to_mono:
  assumes "a \<le> b"
  shows "round_to e a \<le> round_to e b"
proof (cases "a div 2 ^ e = b div 2 ^ e")
  case True
  with assms have "a mod 2 ^ e \<le> b mod 2 ^ e"
    by (metis add_le_cancel_left mult_div_mod_eq)
  with True show ?thesis
    by (auto simp: round_to_def Let_def)
next
  case False
  with assms have "a div 2 ^ e < b div 2 ^ e"
    by (meson div_le_mono le_neq_implies_less)
  then have "a div 2 ^ e + 1 \<le> b div 2 ^ e" by simp
  then have "(a div 2 ^ e + 1) * 2 ^ e \<le> (b div 2 ^ e) * 2 ^ e"
    by (rule mult_le_mono1)
  with round_to_upper[where n = a and e = e] round_to_lower[where n = b and e = e]
  show ?thesis by linarith
qed

lemma bit_length_large:
  assumes "2 ^ 53 \<le> n"
  shows "53 < bit_length n"
proof -
  from assms have "0 < n" by (simp add: less_le_trans[of 0 "2 ^ 53"])
  from bit_length_bounds[OF this] assms have "(2::nat) ^ 53 < 2 ^ bit_length n" by linarith
  with power_less_imp_less_exp[of "2::nat" 53 "bit_length n"] show ?thesis by simp
qed

lemma nearest_double_nat_large:
  assumes "2 ^ 53 \<le> n"
  shows "2 ^ (bit_length n - 1) \<le> nearest_double_nat n \<and> nearest_double_nat n \<le> 2 ^ bit_length n"
proof -
  define e where "e = bit_length n - 53"
  define p where "p = (2::nat) ^ 52"
  from assms have pos: "0 < n" by (simp add: less_le_trans[of 0 "2 ^ 53"])
  from bit_length_large[OF assms] have b: "bit_length n = e + 53" "bit_length n - 1 = e + 52"
    by (simp_all add: e_def)
  have p2: "(2::nat) ^ 53 = 2 * p" by (simp add: p_def)
  have lo_eq: "(2::nat) ^ (bit_length n - 1) = p * 2 ^ e"
    by (simp only: b(2) power_add p_def mult.commute)
  have hi_eq: "(2::nat) ^ bit_length n = (2 * p) * 2 ^ e"
    by (simp only: b(1) power_add p2 mult.commute)
  from bit_length_bounds[OF pos] have lo: "p * 2 ^ e \<le> n" and hi: "n < (2 * p) * 2 ^ e"
    by (simp_all only: lo_eq hi_eq)
  have nd: "nearest_double_nat n = round_to e n"
    using assms by (simp add: nearest_double_nat_def e_def)
  from lo have "p \<le> n div 2 ^ e"
    by (simp add: less_eq_div_iff_mult_less_eq)
  then have "p * 2 ^ e \<le> (n div 2 ^ e) * 2 ^ e"
    by (rule mult_le_mono1)
  with round_to_lower[where n = n and e = e] have low: "p * 2 ^ e \<le> round_to e n"
    by linarith
  from hi have "n div 2 ^ e < 2 * p"
    by (simp add: less_mult_imp_div_less)
  then have "n div 2 ^ e + 1 \<le> 2 * p" by simp
  then have "(n div 2 ^ e + 1) * 2 ^ e \<le> (2 * p) * 2 ^ e"
    by (rule mult_le_mono1)
  with round_to_upper[where n = n and e = e] have "round_to e n \<le> (2 * p) * 2 ^ e"
    by linarith
  with low show ?thesis
    by (simp only: nd lo_eq hi_eq)
qed

lemma nearest_double_nat_mono:
  assumes "a \<le> b"
  shows "nearest_double_nat a \<le> nearest_double_nat b"
proof (cases "b < 2 ^ 53")
  case True
  with assms show ?thesis by (simp add: nearest_double_nat_def)
next
  case False
  then have b: "2 ^ 53 \<le> b" by simp
  note lb = nearest_double_nat_large[OF b]
  show ?thesis
  proof (cases "a < 2 ^ 53")
    case True
    from bit_length_large[OF b] power_increasing[of 53 "bit_length b - 1" "2::nat"]
    have "(2::nat) ^ 53 \<le> 2 ^ (bit_length b - 1)" by simp
    with lb have "2 ^ 53 \<le> nearest_double_nat b" by linarith
    moreover from True have "nearest_double_nat a = a" by (simp add: nearest_double_nat_def)
    ultimately show ?thesis using True by linarith
  next
    case False
    then have a: "2 ^ 53 \<le> a" by simp
    note la = nearest_double_nat_large[OF a]
    show ?thesis
    proof (cases "bit_length a = bit_length b")
      case True
      with a b assms show ?thesis
        by (simp add: nearest_double_nat_def round_to_mono)
    next
      case False
      with bit_length_mono[OF assms] have "bit_length a \<le> bit_length b - 1" by linarith
      with power_increasing[of "bit_length a" "bit_length b - 1" "2::nat"]
      have "(2::nat) ^ bit_length a \<le> 2 ^ (bit_length b - 1)" by simp
      with la lb show ?thesis by linarith
    qed
  qed
qed

lemma nearest_double_exact: "0 \<le> i \<Longrightarrow> i < 2 ^ 53 \<Longrightarrow> nearest_double i = i"
  by (simp add: nearest_double_def nearest_double_nat_def nat_less_iff)

lemma nearest_double_mono: "0 \<le> a \<Longrightarrow> a \<le> b \<Longrightarrow> nearest_double a \<le> nearest_double b"
  by (simp add: nearest_double_def nearest_double_nat_mono)

section \<open>The loop of search\<close>

lemma nearest_double_small: "\<bar>i\<bar> < 2 ^ 53 \<Longrightarrow> nearest_double i = i"
  by (auto simp: nearest_double_def nearest_double_nat_def nat_less_iff)

lemma search_scan_unfold:
  "start \<le> i \<Longrightarrow> getById w (JNumber (of_int i)) s = (r, s1) \<Longrightarrow>
     search_scan w q i start acc s
       = search_scan w q (nearest_double (i - 1)) start (collect q acc r) s1"
  by (subst search_scan.simps) (simp add: collect_def Let_def split: sum.splits)

lemma search_scan_done: "i < start \<Longrightarrow> search_scan w q i start acc s = Some (acc, s)"
  by (subst search_scan.simps) simp

lemma search_scan_never_returns_aux:
  assumes loop: "\<And>j. i \<le> j \<Longrightarrow> i \<le> nearest_double (j - 1)"
    and run: "search_scan w q j start acc s = Some y"
  shows "start \<le> i \<longrightarrow> i \<le> j \<longrightarrow> False"
proof (rule search_scan.raw_induct
    [where P = "\<lambda>w q j start acc s y. start \<le> i \<longrightarrow> i \<le> j \<longrightarrow> False", OF _ run],
    goal_cases)
  case (1 f w q j start acc s y)
  show ?case
  proof (intro impI)
    assume start: "start \<le> i" and j: "i \<le> j"
    obtain r s1 where r: "getById w (JNumber (of_int j)) s = (r, s1)"
      by (cases "getById w (JNumber (of_int j)) s")
    from 1(2) start j r
    have "\<exists>acc'. f w q (nearest_double (j - 1)) start acc' s1 = Some y"
      by (auto simp: Let_def split: sum.splits if_splits)
    then obtain acc' where "f w q (nearest_double (j - 1)) start acc' s1 = Some y" ..
    from 1(1)[OF this] start loop[OF j] show False by blast
  qed
qed

lemma search_scan_never_returns:
  assumes "\<And>j. i \<le> j \<Longrightarrow> i \<le> nearest_double (j - 1)" and "start \<le> i" and "i \<le> j"
  shows "search_scan w q j start acc s = None"
proof (cases "search_scan w q j start acc s")
  case (Some y)
  from search_scan_never_returns_aux[of i, OF assms(1) Some] assms(2,3) show ?thesis by blast
qed simp

text \<open>A scan that returns has counted down.\<close>

lemma search_scan_decreases:
  assumes "search_scan w q i start acc s = Some y" and "1 \<le> start" and "start \<le> i"
  shows "nearest_double (i - 1) < i"
proof (rule ccontr)
  assume "\<not> nearest_double (i - 1) < i"
  then have stuck: "i \<le> nearest_double (i - 1)" by simp
  have "i \<le> nearest_double (j - 1)" if "i \<le> j" for j
  proof -
    from assms(2,3) that have "0 \<le> i - 1" "i - 1 \<le> j - 1" by simp_all
    from nearest_double_mono[OF this] stuck show ?thesis by linarith
  qed
  from search_scan_never_returns[OF this assms(3) order_refl] assms(1) show False by simp
qed

text \<open>Induction over a scan that returns.\<close>

lemma search_scan_induct [consumes 2, case_names stop pass]:
  assumes "search_scan w q i start acc s = Some y" and "1 \<le> start"
    and "\<And>i acc s. i < start \<Longrightarrow> P i acc s (acc, s)"
    and "\<And>i acc s r s1 y.
           start \<le> i \<Longrightarrow> nearest_double (i - 1) < i \<Longrightarrow>
           getById w (JNumber (of_int i)) s = (r, s1) \<Longrightarrow>
           search_scan w q (nearest_double (i - 1)) start (collect q acc r) s1 = Some y \<Longrightarrow>
           P (nearest_double (i - 1)) (collect q acc r) s1 y \<Longrightarrow> P i acc s y"
  shows "P i acc s y"
  using assms(1)
proof (induction "nat (i - start + 1)" arbitrary: i acc s rule: less_induct)
  case less
  show ?case
  proof (cases "i < start")
    case True
    with less.prems assms(3)[OF True, of acc s] show ?thesis
      by (simp add: search_scan_done)
  next
    case False
    then have run: "start \<le> i" by simp
    obtain r s1 where r: "getById w (JNumber (of_int i)) s = (r, s1)"
      by (cases "getById w (JNumber (of_int i)) s")
    from search_scan_decreases[OF less.prems assms(2) run]
    have down: "nearest_double (i - 1) < i" .
    from less.prems search_scan_unfold[OF run r]
    have rest: "search_scan w q (nearest_double (i - 1)) start (collect q acc r) s1 = Some y"
      by simp
    from down run have "nat (nearest_double (i - 1) - start + 1) < nat (i - start + 1)"
      by linarith
    from assms(4)[OF run down r rest less.hyps[OF this rest]] show ?thesis .
  qed
qed

section \<open>The two cold paths, case by case\<close>

lemma getLatest_cold_cases:
  "getLatest_cold w k s =
     (case net w (length (requests s)) latestUrl of
        Rejects e \<Rightarrow>
          (Inl (Error (''Failed to fetch latest comic: '' @ message e)),
           s\<lparr>requests := requests s @ [latestUrl]\<rparr>)
      | Resolves None \<Rightarrow>
          (Inl (Error (''Failed to fetch latest comic: '' @ message (http_error None))),
           s\<lparr>requests := requests s @ [latestUrl]\<rparr>)
      | Resolves (Some r) \<Rightarrow>
          if \<not> ok r
          then (Inl (Error (''Failed to fetch latest comic: '' @ message (http_error (Some r)))),
                s\<lparr>requests := requests s @ [latestUrl]\<rparr>)
          else (case json r of
                  Inl e \<Rightarrow>
                    (Inl (Error (''Failed to fetch latest comic: '' @ message e)),
                     s\<lparr>requests := requests s @ [latestUrl]\<rparr>)
                | Inr raw \<Rightarrow>
                    (Inr (processComic raw),
                     s\<lparr>requests := requests s @ [latestUrl],
                       ticks := Suc (ticks s),
                       cache := (cache s)(k \<mapsto> \<lparr>data = processComic raw,
                                                  timestamp = clock w (ticks s)\<rparr>),
                       nextCachedPenalty := True,
                       slept := slept s + 20\<rparr>)))"
  by (simp add: getLatest_cold_def getLatest_try_def fetch_def Date_now_def setTimeout_def Let_def
           split: fetch_outcome.splits option.splits sum.splits)

lemma getById_cold_cases:
  "getById_cold w n k s =
     (case net w (length (requests s)) (comicUrl n) of
        Rejects e \<Rightarrow>
          (Inl (Error (''Failed to fetch comic by ID: '' @ message e)),
           s\<lparr>requests := requests s @ [comicUrl n]\<rparr>)
      | Resolves None \<Rightarrow>
          (Inl (Error ''Failed to fetch comic by ID: Comic not found''),
           s\<lparr>requests := requests s @ [comicUrl n]\<rparr>)
      | Resolves (Some r) \<Rightarrow>
          if status r = 404
          then (Inl (Error ''Failed to fetch comic by ID: Comic not found''),
                s\<lparr>requests := requests s @ [comicUrl n]\<rparr>)
          else if \<not> ok r
          then (Inl (Error (''Failed to fetch comic by ID: '' @ message (http_error (Some r)))),
                s\<lparr>requests := requests s @ [comicUrl n]\<rparr>)
          else (case json r of
                  Inl e \<Rightarrow>
                    (Inl (Error (''Failed to fetch comic by ID: '' @ message e)),
                     s\<lparr>requests := requests s @ [comicUrl n]\<rparr>)
                | Inr raw \<Rightarrow>
                    (Inr (processComic raw),
                     s\<lparr>requests := requests s @ [comicUrl n],
                       ticks := Suc (ticks s),
                       cache := (cache s)(k \<mapsto> \<lparr>data = processComic raw,
                                                  timestamp = clock w (ticks s)\<rparr>)\<rparr>)))"
  by (simp add: getById_cold_def getById_try_def fetch_def Date_now_def Let_def
           split: fetch_outcome.splits option.splits sum.splits)

lemma getById_success_cached:
  "getById w i s = (Inr c, s1) \<Longrightarrow>
     \<exists>e. cache s1 (comicKey \<lfloor>number i\<rfloor>) = Some e \<and> data e = c"
  by (auto simp: getById_def Date_now_def Let_def getById_cold_cases
           split: option.splits if_splits fetch_outcome.splits sum.splits)

text \<open>Evaluation of the operations on a given archive.\<close>

lemmas run_defs =
  getById_def getById_cold_cases getLatest_def getLatest_cold_cases Date_now_def
  Math_random_def setTimeout_def http_error_def baseUrl_def latestUrl_def comicUrl_def
  comicKey_def cacheTimeout_def toString_def digits.simps digit_def processComic_def
  constructor_def sample_raw_def found_def refused_def Let_def

section \<open>Keys and URLs of different comics differ\<close>

lemma digit_inj:
  assumes "a < 10" and "b < 10" and "digit a = digit b"
  shows "a = b"
proof -
  have a: "a \<in> {0, 1, 2, 3, 4, 5, 6, 7, 8, 9}" using assms(1) by auto
  have b: "b \<in> {0, 1, 2, 3, 4, 5, 6, 7, 8, 9}" using assms(2) by auto
  from a b assms(3) show ?thesis by (auto simp: digit_def)
qed

lemma digits_nonempty: "digits n \<noteq> []"
  by (subst digits.simps) simp

lemma last_digits: "last (digits n) = digit (n mod 10)"
  by (subst digits.simps) simp

lemma butlast_digits: "butlast (digits n) = (if n < 10 then [] else digits (n div 10))"
  by (subst digits.simps) simp

lemma digits_inj: "digits n = digits m \<Longrightarrow> n = m"
proof (induction n arbitrary: m rule: digits.induct)
  case (1 n)
  from "1.prems" have "last (digits n) = last (digits m)" by simp
  then have "digit (n mod 10) = digit (m mod 10)" by (simp add: last_digits)
  then have units: "n mod 10 = m mod 10" by (intro digit_inj) simp_all
  from "1.prems" have "butlast (digits n) = butlast (digits m)" by simp
  then have front: "(if n < 10 then [] else digits (n div 10))
                  = (if m < 10 then [] else digits (m div 10))"
    by (simp only: butlast_digits)
  show ?case
  proof (cases "n < 10")
    case True
    with front have "m < 10" using digits_nonempty[of "m div 10"] by (auto split: if_splits)
    with True units show ?thesis by simp
  next
    case False
    with front have m: "\<not> m < 10" using digits_nonempty[of "n div 10"] by (auto split: if_splits)
    with False front have "digits (n div 10) = digits (m div 10)" by simp
    with False "1.IH" have "n div 10 = m div 10" by blast
    with units show ?thesis by (metis div_mult_mod_eq)
  qed
qed

lemma toString_inj: "0 \<le> n \<Longrightarrow> 0 \<le> m \<Longrightarrow> toString n = toString m \<Longrightarrow> n = m"
  by (auto simp: toString_def dest: digits_inj)

lemma comicKey_inj: "0 \<le> n \<Longrightarrow> 0 \<le> m \<Longrightarrow> comicKey n = comicKey m \<Longrightarrow> n = m"
  by (auto simp: comicKey_def dest: toString_inj)

lemma comicUrl_inj: "0 \<le> n \<Longrightarrow> 0 \<le> m \<Longrightarrow> comicUrl n = comicUrl m \<Longrightarrow> n = m"
  by (auto simp: comicUrl_def dest: toString_inj)

lemma comicKey_not_latest: "comicKey n \<noteq> ''latest''"
  by (simp add: comicKey_def)

lemma comicUrl_not_latestUrl: "comicUrl n \<noteq> latestUrl"
proof
  assume "comicUrl n = latestUrl"
  then have "length (comicUrl n) = length latestUrl" by simp
  then have "length (toString n) = 0" by (simp add: comicUrl_def latestUrl_def)
  then show False by (auto simp: toString_def digits_nonempty split: if_splits)
qed

section \<open>Comics are cached and returned under their own number\<close>

lemma getLatest_consistent:
  "cache_consistent s \<Longrightarrow> cache_consistent (snd (getLatest w s))"
  by (auto simp: cache_consistent_def getLatest_def Date_now_def Let_def setTimeout_def
                 getLatest_cold_cases comicKey_not_latest
           split: if_splits option.splits fetch_outcome.splits sum.splits)

lemma getById_cold_consistent:
  assumes "upstream_consistent w" and "cache_consistent s" and "0 < n"
  shows "cache_consistent (snd (getById_cold w n (comicKey n) s))
       \<and> (\<forall>c. fst (getById_cold w n (comicKey n) s) = Inr c \<longrightarrow> comic_id c = n)"
proof (cases "\<exists>r raw. net w (length (requests s)) (comicUrl n) = Resolves (Some r) \<and> status r \<noteq> 404
                 \<and> ok r \<and> json r = Inr raw")
  case True
  then obtain r raw where r: "net w (length (requests s)) (comicUrl n) = Resolves (Some r)"
      "status r \<noteq> 404" "ok r" "json r = Inr raw" by blast
  with assms(1,3) have num: "num raw = n" unfolding upstream_consistent_def by blast
  have key: "\<And>m. 0 < m \<Longrightarrow> comicKey m = comicKey n \<Longrightarrow> m = n"
    using assms(3) comicKey_inj by force
  from r num assms(2) key show ?thesis
    by (auto simp: getById_cold_cases cache_consistent_def processComic_def)
next
  case False
  with assms(2) show ?thesis
    by (auto simp: getById_cold_cases cache_consistent_def
             split: fetch_outcome.splits option.splits sum.splits)
qed

lemma getById_consistent:
  assumes "upstream_consistent w" and "cache_consistent s" and "0 < n"
  shows "cache_consistent (snd (getById w (JNumber (of_int n)) s))
       \<and> (\<forall>c. fst (getById w (JNumber (of_int n)) s) = Inr c \<longrightarrow> comic_id c = n)"
proof -
  have tick: "cache_consistent (s\<lparr>ticks := Suc (ticks s)\<rparr>)"
    using assms(2) by (simp add: cache_consistent_def)
  from getById_cold_consistent[OF assms] getById_cold_consistent[OF assms(1) tick assms(3)]
    assms(2,3)
  show ?thesis
    by (auto simp: getById_def Let_def Date_now_def cache_consistent_def split: option.splits)
qed

section \<open>The page and the limit that are used\<close>

lemma safePage_default:
  "safePage (default_arg (JNumber 1) pv)
     = (if Number_isInteger pv \<and> number pv > 0 then \<lfloor>number pv\<rfloor> else 1)"
  by (cases pv) (simp_all add: safePage_def)

lemma safeLimit_default:
  "safeLimit (default_arg (JNumber 10) lv)
     = (if Number_isInteger lv \<and> number lv > 0 then min \<lfloor>number lv\<rfloor> 50 else 10)"
  by (cases lv) (simp_all add: safeLimit_def)

lemma positive_integer_floor: "Number_isInteger v \<Longrightarrow> number v > 0 \<Longrightarrow> 1 \<le> \<lfloor>number v\<rfloor>"
  by (cases v) (auto simp: floor_eq_iff intro: ccontr)

lemma safePage_ge_1: "1 \<le> safePage v"
  using positive_integer_floor[of v] by (auto simp: safePage_def)

lemma safeLimit_range: "1 \<le> safeLimit v \<and> safeLimit v \<le> 50"
  using positive_integer_floor[of v] by (auto simp: safeLimit_def)

lemma getLatest_error_message:
  "getLatest w s = (Inl e, s1) \<Longrightarrow> fetch_binding w \<noteq> NotAFunction \<Longrightarrow>
     \<exists>m. message e = ''Failed to fetch latest comic: '' @ m"
  by (auto simp: getLatest_def Date_now_def Let_def getLatest_cold_cases
           split: if_splits option.splits fetch_outcome.splits sum.splits)

lemma trim_spaces: "trim (replicate n (CHR '' '')) = []"
  by (simp add: trim_def isSpace_def)

section \<open>Messages of getById and the loop of getRandom\<close>

lemma getById_message:
  "getById w i s = (Inl e, s1) \<Longrightarrow>
     message e = ''getById method not implemented'' \<or> message e = ''Invalid comic ID''
     \<or> (\<exists>m. message e = ''Failed to fetch comic by ID: '' @ m)"
  by (auto simp: getById_def Date_now_def Let_def getById_cold_cases
           split: if_splits option.splits fetch_outcome.splits sum.splits)

lemma getById_never_plain_not_found:
  "getById w i s = (Inl e, s1) \<Longrightarrow> message e \<noteq> ''Comic not found''"
  by (auto dest!: getById_message)

lemma getRandom_loop_pos:
  "0 < k \<Longrightarrow> getRandom_loop w maxId k s =
     (case Math_random w s of
        (r, s1) \<Rightarrow>
          (let randomId = \<lfloor>r * of_int maxId\<rfloor> + 1 in
           case getById w (JNumber (of_int randomId)) s1 of
             (Inr c, s2) \<Rightarrow> (Some (Inr c), s2)
           | (Inl e, s2) \<Rightarrow>
               if message e = ''Comic not found'' then getRandom_loop w maxId (k - 1) s2
               else (Some (Inl e), s2)))"
  by (cases k) (auto simp: Let_def split: prod.splits sum.splits)

lemma getRandom_loop_single_attempt:
  "0 < k \<Longrightarrow> draws (snd (getRandom_loop w maxId k s)) = Suc (draws s)
                \<and> fst (getRandom_loop w maxId k s) \<noteq> None"
  by (cases k)
     (auto simp: Let_def Math_random_def getById_def Date_now_def getById_cold_cases
           split: prod.splits sum.splits if_splits option.splits fetch_outcome.splits)

section \<open>The sample archive and the new service are consistent\<close>

lemma small_archive_consistent: "upstream_consistent (small_archive step)"
proof -
  have "n = 3" if "0 < n" "comicUrl n = comicUrl 3" for n
    using that comicUrl_inj[of n 3] by simp
  moreover have "n = 2" if "0 < n" "comicUrl n = comicUrl 2" for n
    using that comicUrl_inj[of n 2] by simp
  moreover have "n = 1" if "0 < n" "comicUrl n = comicUrl 1" for n
    using that comicUrl_inj[of n 1] by simp
  ultimately show ?thesis
    by (auto simp: upstream_consistent_def small_archive_def found_def refused_def sample_raw_def
                   comicUrl_not_latestUrl
             split: if_splits)
qed

lemma constructor_consistent: "cache_consistent constructor"
  by (simp add: cache_consistent_def constructor_def)

section \<open>The scan of search\<close>

lemma collect_sorted:
  assumes "sorted_wrt (>) (map comic_id acc)" and "\<forall>c \<in> set acc. i < comic_id c"
    and "\<And>c. r = Inr c \<Longrightarrow> comic_id c = i" and "j < i"
  shows "sorted_wrt (>) (map comic_id (collect q acc r)) \<and> (\<forall>c \<in> set (collect q acc r). j < comic_id c)"
  using assms by (cases r) (auto simp: collect_def sorted_wrt_append)

lemma search_scan_sorted:
  assumes run: "search_scan w q i start acc s = Some y" and start: "1 \<le> start"
    and upstream: "upstream_consistent w"
  shows "cache_consistent s \<longrightarrow> sorted_wrt (>) (map comic_id acc)
           \<longrightarrow> (\<forall>c \<in> set acc. i < comic_id c)
           \<longrightarrow> cache_consistent (snd y) \<and> sorted_wrt (>) (map comic_id (fst y))"
proof (rule search_scan_induct
    [where P = "\<lambda>i acc s y. cache_consistent s \<longrightarrow> sorted_wrt (>) (map comic_id acc)
                  \<longrightarrow> (\<forall>c \<in> set acc. i < comic_id c)
                  \<longrightarrow> cache_consistent (snd y) \<and> sorted_wrt (>) (map comic_id (fst y))",
     OF run start], goal_cases)
  case (1 i acc s)
  show ?case by simp
next
  case (2 i acc s r s1 y)
  show ?case
  proof (intro impI)
    assume s: "cache_consistent s" and acc: "sorted_wrt (>) (map comic_id acc)"
      and above: "\<forall>c \<in> set acc. i < comic_id c"
    from start 2(1) have pos: "0 < i" by simp
    from getById_consistent[OF upstream s pos] 2(3)
    have s1: "cache_consistent s1" and own: "\<And>c. r = Inr c \<Longrightarrow> comic_id c = i" by auto
    from collect_sorted[OF acc above own 2(2)] 2(5) s1
    show "cache_consistent (snd y) \<and> sorted_wrt (>) (map comic_id (fst y))" by blast
  qed
qed

lemma length_collect: "length (collect q acc r) \<le> Suc (length acc)"
  by (cases r) (simp_all add: collect_def)

text \<open>From an id of at most \<open>2^53\<close> the scan counts down exactly and returns.\<close>

lemma search_scan_returns:
  "1 \<le> start \<Longrightarrow> i \<le> 2 ^ 53 \<Longrightarrow>
     \<exists>y. search_scan w q i start acc s = Some y
          \<and> length (fst y) \<le> length acc + nat (i - start + 1)"
proof (induction "nat (i - start + 1)" arbitrary: i acc s rule: less_induct)
  case less
  show ?case
  proof (cases "i < start")
    case True
    then show ?thesis by (simp add: search_scan_done)
  next
    case False
    then have run: "start \<le> i" by simp
    obtain r s1 where r: "getById w (JNumber (of_int i)) s = (r, s1)"
      by (cases "getById w (JNumber (of_int i)) s")
    from run less.prems have "\<bar>i - 1\<bar> < 2 ^ 53" by simp
    then have down: "nearest_double (i - 1) = i - 1" by (rule nearest_double_small)
    from run have "nat (i - 1 - start + 1) < nat (i - start + 1)" by simp
    from less.hyps[OF this less.prems(1), of "collect q acc r" s1] less.prems(2)
    obtain y where y: "search_scan w q (i - 1) start (collect q acc r) s1 = Some y"
      "length (fst y) \<le> length (collect q acc r) + nat (i - 1 - start + 1)" by auto
    from y(2) length_collect[of q acc r] run
    have "length (fst y) \<le> length acc + nat (i - start + 1)" by linarith
    with y(1) search_scan_unfold[OF run r, of q acc] down show ?thesis by simp
  qed
qed

lemma search_window:
  assumes "maxId \<le> 2 ^ 53"
  shows "nat (maxId - max 1 (nearest_double (maxId - 30)) + 1) \<le> 31"
proof (cases "30 \<le> maxId")
  case True
  with assms have "\<bar>maxId - 30\<bar> < 2 ^ 53" by simp
  then have "nearest_double (maxId - 30) = maxId - 30" by (rule nearest_double_small)
  then show ?thesis by simp
next
  case False
  then show ?thesis by simp
qed

section \<open>Running search\<close>

lemma search_success:
  "search w (JString qs) pv lv s = Some (Inr r, s') \<Longrightarrow>
     \<exists>latest s1 matches.
        getLatest w s = (Inr latest, s1)
      \<and> search_scan w (toLowerCase (trim qs)) (comic_id latest)
           (max 1 (nearest_double (comic_id latest - 30))) [] s1 = Some (matches, s')
      \<and> r = paginate (trim qs) (default_arg (JNumber 1) pv) (default_arg (JNumber 10) lv) matches"
  by (auto simp: search_def Let_def split: if_splits prod.splits sum.splits option.splits)

lemma search_run:
  assumes "fetch_binding w = Function"
    and "1 \<le> length (trim qs)" and "length (trim qs) \<le> 100"
    and "getLatest w s = (Inr latest, s1)"
    and "search_scan w (toLowerCase (trim qs)) (comic_id latest)
           (max 1 (nearest_double (comic_id latest - 30))) [] s1 = Some (matches, s2)"
  shows "search w (JString qs) pv lv s
           = Some (Inr (paginate (trim qs) (default_arg (JNumber 1) pv)
                          (default_arg (JNumber 10) lv) matches), s2)"
  using assms by (auto simp: search_def Let_def)

section \<open>Offsets and slices\<close>

lemma times_double_exact:
  assumes "0 \<le> a" and "1 \<le> b" and "a * b < 2 ^ 53"
  shows "times_double (nearest_double a) b = Finite (a * b)"
proof -
  from mult_left_mono[OF assms(2,1)] have "a \<le> a * b"
    by (simp only: mult_1_right)
  with assms(3) have a: "a < 2 ^ 53" by linarith
  from assms(1,2) have nonneg: "0 \<le> a * b" by simp
  from a assms(1) have "nearest_double a = a" by (simp add: nearest_double_small)
  moreover from nonneg assms(3) have "nearest_double (a * b) = a * b"
    by (simp add: nearest_double_small)
  ultimately show ?thesis using assms(3)
    by (simp add: times_double_def overflow_def)
qed

lemma nearest_double_ge:
  assumes "2 ^ 53 - 1 \<le> x"
  shows "2 ^ 53 - 1 \<le> nearest_double x"
proof -
  have "nearest_double (2 ^ 53 - 1) = 2 ^ 53 - 1"
    by (simp add: nearest_double_small)
  with nearest_double_mono[of "2 ^ 53 - 1" x] assms show ?thesis by simp
qed

lemma times_double_beyond:
  assumes "0 \<le> a" and "1 \<le> b" and "int n \<le> a * b" and "n < 2 ^ 53"
  shows "at_or_beyond (times_double (nearest_double a) b) n"
proof (cases "a * b < 2 ^ 53")
  case True
  from times_double_exact[OF assms(1,2) True] assms(3) show ?thesis
    by (simp add: at_or_beyond_def)
next
  case False
  have "2 ^ 53 - 1 \<le> nearest_double a * b"
  proof (cases "a < 2 ^ 53")
    case True
    with assms(1) have "nearest_double a = a" by (simp add: nearest_double_small)
    with False show ?thesis by simp
  next
    case False
    then have big: "2 ^ 53 - 1 \<le> nearest_double a" by (intro nearest_double_ge) simp
    then have "0 \<le> nearest_double a" by simp
    from mult_left_mono[OF assms(2) this] have "nearest_double a \<le> nearest_double a * b"
      by (simp only: mult_1_right)
    with big show ?thesis by linarith
  qed
  then have "2 ^ 53 - 1 \<le> nearest_double (nearest_double a * b)" by (rule nearest_double_ge)
  with assms(4) have "int n \<le> nearest_double (nearest_double a * b)" by simp
  then show ?thesis
    by (simp add: at_or_beyond_def times_double_def overflow_def)
qed

lemma slice_beyond: "at_or_beyond x (length xs) \<Longrightarrow> slice xs x y = []"
  by (cases x) (auto simp: slice_def clip_def at_or_beyond_def Let_def)

lemma slice_exact:
  assumes "0 \<le> k" and "0 \<le> l" and "k + l < 2 ^ 53"
  shows "slice xs (Finite k) (plus_double (Finite k) l) = take (nat l) (drop (nat k) xs)"
proof -
  from assms have "nearest_double (k + l) = k + l" by (simp add: nearest_double_small)
  with assms have plus: "plus_double (Finite k) l = Finite (k + l)"
    by (simp add: plus_double_def overflow_def)
  from assms(1,2) show ?thesis
    unfolding plus
    by (auto simp: slice_def clip_def Let_def min_def nat_add_distrib)
qed

lemma sorted_slice:
  "sorted_wrt P (map f xs) \<Longrightarrow> sorted_wrt P (map f (slice xs x y))"
  by (simp add: slice_def Let_def take_map[symmetric] drop_map[symmetric])

section \<open>Sample runs of search\<close>

lemmas search_defs =
  search_scan.simps trim_def isSpace_def toLowerCase_def lowerChar_def upperChars_def
  lowerChars_def paginate_def slice_def clip_def safePage_def safeLimit_def times_double_def
  plus_double_def overflow_def nearest_double_small

lemma small_archive_latest:
  "getLatest (small_archive step) constructor
     = (Inr (processComic (sample_raw 3 ''Python Tools'')),
        constructor\<lparr>requests := [latestUrl], ticks := 1,
          cache := [''latest'' \<mapsto> \<lparr>data = processComic (sample_raw 3 ''Python Tools''),
                                      timestamp = 0\<rparr>],
          nextCachedPenalty := True, slept := 20\<rparr>)"
  by (simp add: run_defs small_archive_def)

lemma small_archive_scan:
  "map_option fst
     (search_scan (small_archive step) ''python'' 3 1 []
        (constructor\<lparr>requests := [latestUrl], ticks := 1,
           cache := [''latest'' \<mapsto> \<lparr>data = processComic (sample_raw 3 ''Python Tools''),
                                       timestamp = 0\<rparr>],
           nextCachedPenalty := True, slept := 20\<rparr>))
     = Some [processComic (sample_raw 3 ''Python Tools''), processComic (sample_raw 1 ''python'')]"
  by (simp add: run_defs search_defs small_archive_def)

lemma small_archive_search:
  "map_option fst (search (small_archive step) (JString '' PYTHON '') pv lv constructor)
     = Some (Inr (paginate ''PYTHON'' (default_arg (JNumber 1) pv) (default_arg (JNumber 10) lv)
                    [processComic (sample_raw 3 ''Python Tools''),
                     processComic (sample_raw 1 ''python'')]))"
proof -
  let ?s1 = "constructor\<lparr>requests := [latestUrl], ticks := 1,
               cache := [''latest'' \<mapsto> \<lparr>data = processComic (sample_raw 3 ''Python Tools''),
                                           timestamp = 0\<rparr>],
               nextCachedPenalty := True, slept := 20\<rparr>"
  let ?m = "[processComic (sample_raw 3 ''Python Tools''), processComic (sample_raw 1 ''python'')]"
  have t: "trim '' PYTHON '' = ''PYTHON''"
    by (simp add: trim_def isSpace_def)
  have q: "toLowerCase ''PYTHON'' = ''python''"
    by (simp add: toLowerCase_def lowerChar_def upperChars_def lowerChars_def)
  from small_archive_scan[of step] obtain s2
    where "search_scan (small_archive step) ''python'' 3 1 [] ?s1 = Some (?m, s2)"
    by auto
  then have scan: "search_scan (small_archive step) (toLowerCase (trim '' PYTHON ''))
                (comic_id (processComic (sample_raw 3 ''Python Tools'')))
                (max 1 (nearest_double (comic_id (processComic (sample_raw 3 ''Python Tools'')) - 30)))
                [] ?s1 = Some (?m, s2)"
    by (simp add: t q processComic_def sample_raw_def nearest_double_small)
  have "search (small_archive step) (JString '' PYTHON '') pv lv constructor
          = Some (Inr (paginate (trim '' PYTHON '') (default_arg (JNumber 1) pv)
                         (default_arg (JNumber 10) lv) ?m), s2)"
    by (rule search_run[OF _ _ _ small_archive_latest scan])
       (simp_all add: small_archive_def t)
  then show ?thesis by (simp add: t)
qed

lemmas rounding_defs = nearest_double_def nearest_double_nat_def round_to_def bit_length.simps Let_def

lemma rounded_offset: "nearest_double 27021597764222973 = 27021597764222972"
  by (simp add: rounding_defs)

lemma rounded_end: "nearest_double 27021597764222975 = 27021597764222976"
  by (simp add: rounding_defs)

lemma rounded_id: "nearest_double 9007199254740995 = 9007199254740996"
  by (simp add: rounding_defs)

lemma search_from_parts:
  assumes "fetch_binding w = Function"
    and "trim qs = t" and "1 \<le> length t" and "length t \<le> 100" and "toLowerCase t = q"
    and "getLatest w s = (Inr latest, s1)"
    and "comic_id latest = m" and "max 1 (nearest_double (m - 30)) = start"
    and "map_option fst (search_scan w q m start [] s1) = Some matches"
  shows "map_option fst (search w (JString qs) pv lv s)
           = Some (Inr (paginate t (default_arg (JNumber 1) pv) (default_arg (JNumber 10) lv)
                          matches))"
proof -
  from assms(9) obtain s2 where "search_scan w q m start [] s1 = Some (matches, s2)" by auto
  with assms(2,5,7,8)
  have "search_scan w (toLowerCase (trim qs)) (comic_id latest)
          (max 1 (nearest_double (comic_id latest - 30))) [] s1 = Some (matches, s2)"
    by simp
  from search_run[OF assms(1) _ _ assms(6) this, of pv lv] assms(2,3,4) show ?thesis by simp
qed

lemma python_query: "trim ''python'' = ''python''" "toLowerCase ''python'' = ''python''"
  by (simp_all add: trim_def isSpace_def toLowerCase_def lowerChar_def upperChars_def
        lowerChars_def)

lemma mislabelled_search:
  "map_option fst (search mislabelled (JString ''python'') JUndefined JUndefined constructor)
     = Some (Inr \<lparr>query = ''python'',
                  results = [processComic (sample_raw 1 ''Python one''),
                             processComic (sample_raw 2 ''Python two'')],
                  total = 2,
                  pagination = \<lparr>page = 1, limit = 10, pages = 1, offset = Finite 0\<rparr>\<rparr>)"
proof -
  let ?s1 = "constructor\<lparr>requests := [latestUrl], ticks := 1,
               cache := [''latest'' \<mapsto> \<lparr>data = processComic (sample_raw 2 ''Python two''),
                                           timestamp = 0\<rparr>],
               nextCachedPenalty := True, slept := 20\<rparr>"
  have latest: "getLatest mislabelled constructor
                  = (Inr (processComic (sample_raw 2 ''Python two'')), ?s1)"
    by (simp add: run_defs mislabelled_def)
  have scan: "map_option fst (search_scan mislabelled ''python'' 2 1 [] ?s1)
                = Some [processComic (sample_raw 1 ''Python one''),
                        processComic (sample_raw 2 ''Python two'')]"
    by (simp add: run_defs search_defs mislabelled_def)
  from search_from_parts[OF _ python_query(1) _ _ python_query(2) latest _ _ scan,
      of JUndefined JUndefined]
  show ?thesis
    by (simp add: mislabelled_def processComic_def sample_raw_def search_defs)
qed

lemma huge_archive_search:
  "search huge_archive (JString ''python'') pv lv constructor = None"
proof -
  let ?i = "9007199254740996 :: int"
  have stuck: "?i \<le> nearest_double (j - 1)" if "?i \<le> j" for j
  proof -
    from that have "0 \<le> ?i - 1" "?i - 1 \<le> j - 1" by simp_all
    from nearest_double_mono[OF this] rounded_id show ?thesis by simp
  qed
  have start: "max 1 (nearest_double (?i - 30)) \<le> ?i"
    by (simp add: nearest_double_small)
  have "search_scan huge_archive q ?i (max 1 (nearest_double (?i - 30))) [] s = None" for q s
    by (rule search_scan_never_returns[OF stuck start order_refl])
  then show ?thesis
    by (simp add: search_def run_defs huge_archive_def trim_def isSpace_def)
qed

lemma floor_five_halves: "\<lfloor>5 / 2 :: rat\<rfloor> = 2"
  by (simp add: floor_eq_iff)

section \<open>The cache stays consistent\<close>

lemma search_consistent:
  assumes "upstream_consistent w" and "cache_consistent s"
    and "search w qv pv lv s = Some (r, s')"
  shows "cache_consistent s'"
proof (cases "\<exists>qs. qv = JString qs \<and> fetch_binding w = Function
                \<and> \<not> (length (trim qs) < 1 \<or> length (trim qs) > 100)")
  case False
  with assms(2,3) show ?thesis
    by (cases qv) (auto simp: search_def Let_def split: if_splits)
next
  case True
  then obtain qs where qs: "qv = JString qs" "fetch_binding w = Function"
    "\<not> (length (trim qs) < 1 \<or> length (trim qs) > 100)" by blast
  obtain x s1 where latest: "getLatest w s = (x, s1)" by (cases "getLatest w s")
  from getLatest_consistent[OF assms(2), of w] latest have s1: "cache_consistent s1" by simp
  show ?thesis
  proof (cases x)
    case (Inl e)
    with assms(3) qs latest s1 show ?thesis by (auto simp: search_def Let_def)
  next
    case (Inr c)
    with assms(3) qs latest obtain m
      where "search_scan w (toLowerCase (trim qs)) (comic_id c)
               (max 1 (nearest_double (comic_id c - 30))) [] s1 = Some (m, s')"
      by (auto simp: search_def Let_def split: option.splits)
    from search_scan_sorted[OF this _ assms(1)] s1 show ?thesis by simp
  qed
qed

lemma getById_any_consistent:
  assumes "upstream_consistent w" and "cache_consistent s"
  shows "cache_consistent (snd (getById w v s))"
proof (cases "Number_isInteger v \<and> 0 < number v")
  case True
  then obtain r where v: "v = JNumber r" by (cases v) auto
  with True obtain n where r: "r = of_int n" and "0 < n"
    by (metis Number_isInteger.simps(1) number.simps(1) of_int_0_less_iff)
  with getById_consistent[OF assms, of n] v show ?thesis by simp
next
  case False
  with assms(2) show ?thesis by (auto simp: getById_def)
qed

lemma getRandom_loop_consistent:
  "upstream_consistent w \<Longrightarrow> cache_consistent s \<Longrightarrow>
     cache_consistent (snd (getRandom_loop w maxId k s))"
proof (induction k arbitrary: s)
  case 0
  then show ?case by simp
next
  case (Suc k)
  define n where "n = \<lfloor>random w (draws s) * of_int maxId\<rfloor> + 1"
  define t where "t = s\<lparr>draws := Suc (draws s)\<rparr>"
  from Suc.prems(2) have t: "cache_consistent t" by (simp add: cache_consistent_def t_def)
  obtain x s2 where x: "getById w (JNumber (of_int n)) t = (x, s2)"
    by (cases "getById w (JNumber (of_int n)) t")
  with getById_any_consistent[OF Suc.prems(1) t, of "JNumber (of_int n)"]
  have s2: "cache_consistent s2" by simp
  have step: "getRandom_loop w maxId (Suc k) s
      = (case x of Inr c \<Rightarrow> (Some (Inr c), s2)
         | Inl err \<Rightarrow> if message err = ''Comic not found''
                        then getRandom_loop w maxId k s2 else (Some (Inl err), s2))"
    using x by (simp add: Math_random_def Let_def n_def t_def)
  show ?case
    unfolding step using s2 Suc.IH[OF Suc.prems(1) s2] by (simp split: sum.splits)
qed

lemma getRandom_consistent:
  assumes "upstream_consistent w" and "cache_consistent s"
  shows "cache_consistent (snd (getRandom w s))"
proof -
  obtain x s1 where latest: "getLatest w s = (x, s1)" by (cases "getLatest w s")
  with getLatest_consistent[OF assms(2), of w] have s1: "cache_consistent s1" by simp
  show ?thesis
  proof (cases x)
    case (Inl e)
    with latest s1 assms(2) show ?thesis by (simp add: getRandom_def)
  next
    case (Inr c)
    obtain y s2 where loop: "getRandom_loop w (comic_id c) 5 s1 = (y, s2)"
      by (cases "getRandom_loop w (comic_id c) 5 s1")
    with getRandom_loop_consistent[OF assms(1) s1, of "comic_id c" 5]
    have "cache_consistent s2" by simp
    with Inr latest loop assms(2) show ?thesis
      by (simp add: getRandom_def split: option.splits sum.splits)
  qed
qed

section \<open>Claims about getById and getLatest\<close>

text \<open>
  In all that follows the hypothesis \<open>fetch_binding w = Function\<close> says that
  \<^verbatim>\<open>fetch\<close> is the function exported by node-fetch, as it is when the service runs
  outside a test that replaces the module.
\<close>

text \<open>
  C1.  If \<open>getById\<close> succeeds for an id and is called again for the same id while the
  entry it left in the cache is still there and younger than the five minutes of
  \<open>cacheTimeout\<close>, the second call returns the very same comic, and it performs no
  upstream fetch: it changes nothing but the count of clock readings.  The second call
  may come at any later state \<open>s2\<close> and in any environment \<open>w2\<close>.
\<close>

theorem getById_repeat_within_ttl:
  assumes "getById w i s = (Inr c, s1)"
    and "cache s1 (comicKey \<lfloor>number i\<rfloor>) = Some e"
    and "cache s2 (comicKey \<lfloor>number i\<rfloor>) = Some e"
    and "fetch_binding w2 = Function"
    and "clock w2 (ticks s2) - timestamp e < cacheTimeout"
  shows "getById w2 i s2 = (Inr c, s2\<lparr>ticks := Suc (ticks s2)\<rparr>)
         \<and> requests (snd (getById w2 i s2)) = requests s2"
proof -
  from assms(1) have valid: "Number_isInteger i" "\<not> number i \<le> 0"
    by (auto simp: getById_def split: if_splits)
  from getById_success_cached[OF assms(1)] assms(2) have "data e = c" by auto
  with valid assms(3-5) show ?thesis
    by (simp add: getById_def Date_now_def Let_def)
qed

text \<open>On the small archive: comic 2 is fetched once, at time 0, and served from the cache at time 1000.\<close>

theorem getById_repeat_within_ttl_witness:
  "getById (small_archive 1000) (JNumber 2)
     (snd (getById (small_archive 1000) (JNumber 2) constructor))
   = (fst (getById (small_archive 1000) (JNumber 2) constructor),
      (snd (getById (small_archive 1000) (JNumber 2) constructor))\<lparr>ticks := 2\<rparr>)
   \<and> fst (getById (small_archive 1000) (JNumber 2) constructor)
     = Inr (processComic (sample_raw 2 ''Barrel''))
   \<and> requests (snd (getById (small_archive 1000) (JNumber 2)
                       (snd (getById (small_archive 1000) (JNumber 2) constructor))))
     = [''https://xkcd.com/2/info.0.json'']"
proof -
  let ?w = "small_archive 1000"
  let ?c = "processComic (sample_raw 2 ''Barrel'')"
  let ?e = "\<lparr>data = ?c, timestamp = 0\<rparr>"
  let ?s1 = "constructor\<lparr>requests := [''https://xkcd.com/2/info.0.json''], ticks := 1,
                          cache := [''comic-2'' \<mapsto> ?e]\<rparr>"
  have first: "getById ?w (JNumber 2) constructor = (Inr ?c, ?s1)"
    by (simp add: run_defs small_archive_def)
  have entry: "cache ?s1 (comicKey \<lfloor>number (JNumber 2)\<rfloor>) = Some ?e"
    by (simp add: run_defs)
  have binding: "fetch_binding ?w = Function"
    by (simp add: small_archive_def)
  have fresh: "clock ?w (ticks ?s1) - timestamp ?e < cacheTimeout"
    by (simp add: small_archive_def cacheTimeout_def constructor_def)
  from getById_repeat_within_ttl[OF first entry entry binding fresh] first
  show ?thesis by (simp add: constructor_def)
qed

text \<open>
  C2.  The request for comic 404 is answered with status 404.  \<open>getById\<close> throws
  "Comic not found" inside its own \<^verbatim>\<open>try\<close> block, the \<^verbatim>\<open>catch\<close> of lines 90-92 wraps it,
  and the error that leaves \<open>getById\<close> carries the message
  "Failed to fetch comic by ID: Comic not found", not "Comic not found".
\<close>

theorem getById_missing_message:
  "getById gap_archive (JNumber 404) constructor
     = (Inl (Error ''Failed to fetch comic by ID: Comic not found''),
        constructor\<lparr>requests := [''https://xkcd.com/404/info.0.json'']\<rparr>)"
  by (simp add: run_defs gap_archive_def)

text \<open>In particular the message of that error is not "Comic not found".\<close>

theorem getById_missing_message_witness:
  "message (projl (fst (getById gap_archive (JNumber 404) constructor))) \<noteq> ''Comic not found''"
  using getById_missing_message by simp

text \<open>
  C5.  For an argument that is not a positive integer (zero, negative, fractional, or
  not a number at all) \<open>getById\<close> fails with the error "Invalid comic ID" and leaves
  the whole state as it was: no upstream call, no access to the cache, not even a
  reading of the clock.
\<close>

theorem getById_invalid_id:
  assumes "fetch_binding w = Function"
    and "\<not> Number_isInteger i \<or> number i \<le> 0"
  shows "getById w i s = (Inl (Error ''Invalid comic ID''), s)"
  using assms by (simp add: getById_def)

text \<open>The ids 0, -1, 3/2 and the string "614".\<close>

theorem getById_invalid_id_witness:
  "getById gap_archive (JNumber 0) constructor = (Inl (Error ''Invalid comic ID''), constructor)
   \<and> getById gap_archive (JNumber (- 1)) constructor = (Inl (Error ''Invalid comic ID''), constructor)
   \<and> getById gap_archive (JNumber (3 / 2)) constructor = (Inl (Error ''Invalid comic ID''), constructor)
   \<and> getById gap_archive (JString ''614'') constructor = (Inl (Error ''Invalid comic ID''), constructor)"
proof -
  have binding: "fetch_binding gap_archive = Function"
    by (simp add: gap_archive_def)
  have zero: "\<not> Number_isInteger (JNumber 0) \<or> number (JNumber 0) \<le> 0" by simp
  have negative: "\<not> Number_isInteger (JNumber (- 1)) \<or> number (JNumber (- 1)) \<le> 0" by simp
  have "\<lfloor>3 / 2 :: rat\<rfloor> = 1" by (simp add: floor_eq_iff)
  then have fraction: "\<not> Number_isInteger (JNumber (3 / 2)) \<or> number (JNumber (3 / 2)) \<le> 0"
    by simp
  have str: "\<not> Number_isInteger (JString ''614'') \<or> number (JString ''614'') \<le> 0" by simp
  show ?thesis
    using getById_invalid_id[OF binding zero] getById_invalid_id[OF binding negative]
      getById_invalid_id[OF binding fraction] getById_invalid_id[OF binding str]
    by simp
qed

text \<open>
  C8.  When the cache holds an entry for "latest" whose age has reached \<open>cacheTimeout\<close>,
  \<open>getLatest\<close> takes the cold path: it sends one more request for the latest comic;
  when that request is answered with a comic, this comic is returned and stored under
  "latest" with the time read after the answer; and whenever a comic is returned, it is
  the one of the fresh answer, never the stale entry.
\<close>

theorem getLatest_after_ttl:
  assumes "fetch_binding w \<noteq> NotAFunction"
    and "cache s ''latest'' = Some e"
    and "clock w (ticks s) - timestamp e \<ge> cacheTimeout"
  shows "getLatest w s = getLatest_cold w ''latest'' (s\<lparr>ticks := Suc (ticks s)\<rparr>)
       \<and> requests (snd (getLatest w s)) = requests s @ [latestUrl]
       \<and> (\<forall>r raw. net w (length (requests s)) latestUrl = Resolves (Some r) \<and> ok r
                   \<and> json r = Inr raw
              \<longrightarrow> fst (getLatest w s) = Inr (processComic raw)
                \<and> cache (snd (getLatest w s)) ''latest''
                    = Some \<lparr>data = processComic raw, timestamp = clock w (Suc (ticks s))\<rparr>)
       \<and> (\<forall>c. fst (getLatest w s) = Inr c
              \<longrightarrow> (\<exists>r raw. net w (length (requests s)) latestUrl = Resolves (Some r)
                     \<and> json r = Inr raw \<and> c = processComic raw))"
proof -
  have cold: "getLatest w s = getLatest_cold w ''latest'' (s\<lparr>ticks := Suc (ticks s)\<rparr>)"
    using assms by (simp add: getLatest_def Date_now_def Let_def)
  show ?thesis
    unfolding cold
    by (auto simp: getLatest_cold_cases split: fetch_outcome.splits option.splits sum.splits)
qed

text \<open>
  On the small archive with a clock that advances by five minutes at every reading: the
  entry stored at time 0 is refreshed by the second call and stamped 600000.
\<close>

theorem getLatest_after_ttl_witness:
  "cache (snd (getLatest (small_archive 300000) constructor)) ''latest''
     = Some \<lparr>data = processComic (sample_raw 3 ''Python Tools''), timestamp = 0\<rparr>
   \<and> fst (getLatest (small_archive 300000) (snd (getLatest (small_archive 300000) constructor)))
     = Inr (processComic (sample_raw 3 ''Python Tools''))
   \<and> requests (snd (getLatest (small_archive 300000)
                       (snd (getLatest (small_archive 300000) constructor))))
     = [latestUrl, latestUrl]
   \<and> cache (snd (getLatest (small_archive 300000)
                    (snd (getLatest (small_archive 300000) constructor)))) ''latest''
     = Some \<lparr>data = processComic (sample_raw 3 ''Python Tools''), timestamp = 600000\<rparr>"
proof -
  let ?w = "small_archive 300000"
  let ?c = "processComic (sample_raw 3 ''Python Tools'')"
  let ?e = "\<lparr>data = ?c, timestamp = 0\<rparr>"
  let ?s1 = "constructor\<lparr>requests := [latestUrl], ticks := 1, cache := [''latest'' \<mapsto> ?e],
                          nextCachedPenalty := True, slept := 20\<rparr>"
  let ?r = "\<lparr>ok = True, status = 200, statusText = ''OK'',
             json = Inr (sample_raw 3 ''Python Tools'')\<rparr>"
  have first: "getLatest ?w constructor = (Inr ?c, ?s1)"
    by (simp add: run_defs small_archive_def)
  have binding: "fetch_binding ?w \<noteq> NotAFunction"
    by (simp add: small_archive_def)
  have entry: "cache ?s1 ''latest'' = Some ?e"
    by simp
  have stale: "clock ?w (ticks ?s1) - timestamp ?e \<ge> cacheTimeout"
    by (simp add: small_archive_def cacheTimeout_def constructor_def)
  have answer: "net ?w (length (requests ?s1)) latestUrl = Resolves (Some ?r) \<and> ok ?r
                \<and> json ?r = Inr (sample_raw 3 ''Python Tools'')"
    by (simp add: small_archive_def found_def)
  from getLatest_after_ttl[OF binding entry stale] answer
  have "requests (snd (getLatest ?w ?s1)) = requests ?s1 @ [latestUrl]
      \<and> fst (getLatest ?w ?s1) = Inr ?c
      \<and> cache (snd (getLatest ?w ?s1)) ''latest''
          = Some \<lparr>data = ?c, timestamp = clock ?w (Suc (ticks ?s1))\<rparr>"
    by blast
  then show ?thesis
    unfolding first by (simp add: small_archive_def constructor_def)
qed

text \<open>
  C9.  Whenever \<open>getLatest\<close> or \<open>getById\<close> fails, whatever the failure, the cache is
  exactly what it was before the call; and a call that changes the cache has returned a
  comic and has sent one upstream request.
\<close>

theorem cache_changes_only_on_success:
  "(\<forall>e s1. getLatest w s = (Inl e, s1) \<longrightarrow> cache s1 = cache s)
   \<and> (\<forall>e s1. getById w i s = (Inl e, s1) \<longrightarrow> cache s1 = cache s)
   \<and> (cache (snd (getLatest w s)) \<noteq> cache s
        \<longrightarrow> (\<exists>c. fst (getLatest w s) = Inr c)
          \<and> requests (snd (getLatest w s)) = requests s @ [latestUrl])
   \<and> (cache (snd (getById w i s)) \<noteq> cache s
        \<longrightarrow> (\<exists>c. fst (getById w i s) = Inr c)
          \<and> requests (snd (getById w i s)) = requests s @ [comicUrl \<lfloor>number i\<rfloor>])"
proof (intro conjI)
  show "\<forall>e s1. getLatest w s = (Inl e, s1) \<longrightarrow> cache s1 = cache s"
    by (auto simp: getLatest_def Date_now_def Let_def setTimeout_def getLatest_cold_cases
             split: if_splits option.splits fetch_outcome.splits sum.splits)
  show "\<forall>e s1. getById w i s = (Inl e, s1) \<longrightarrow> cache s1 = cache s"
    by (auto simp: getById_def Date_now_def Let_def getById_cold_cases
             split: if_splits option.splits fetch_outcome.splits sum.splits)
  show "cache (snd (getLatest w s)) \<noteq> cache s
        \<longrightarrow> (\<exists>c. fst (getLatest w s) = Inr c)
          \<and> requests (snd (getLatest w s)) = requests s @ [latestUrl]"
    by (auto simp: getLatest_def Date_now_def Let_def setTimeout_def getLatest_cold_cases
             split: if_splits option.splits fetch_outcome.splits sum.splits)
  show "cache (snd (getById w i s)) \<noteq> cache s
        \<longrightarrow> (\<exists>c. fst (getById w i s) = Inr c)
          \<and> requests (snd (getById w i s)) = requests s @ [comicUrl \<lfloor>number i\<rfloor>]"
    by (auto simp: getById_def Date_now_def Let_def getById_cold_cases
             split: if_splits option.splits fetch_outcome.splits sum.splits)
qed

text \<open>
  With no request getting through both operations fail and leave the empty cache empty;
  on the small archive both succeed, fill the cache and have sent one request.
\<close>

theorem cache_changes_only_on_success_witness:
  "fst (getLatest unreachable constructor)
     = Inl (Error ''Failed to fetch latest comic: connect ECONNREFUSED'')
   \<and> cache (snd (getLatest unreachable constructor)) = cache constructor
   \<and> fst (getById unreachable (JNumber 404) constructor)
     = Inl (Error ''Failed to fetch comic by ID: connect ECONNREFUSED'')
   \<and> cache (snd (getById unreachable (JNumber 404) constructor)) = cache constructor
   \<and> cache (snd (getLatest (small_archive 1000) constructor)) ''latest'' \<noteq> None
   \<and> requests (snd (getLatest (small_archive 1000) constructor)) = [latestUrl]
   \<and> cache (snd (getById (small_archive 1000) (JNumber 2) constructor)) ''comic-2'' \<noteq> None
   \<and> requests (snd (getById (small_archive 1000) (JNumber 2) constructor)) = [comicUrl 2]"
proof -
  let ?s = "constructor\<lparr>requests := [latestUrl]\<rparr>"
  let ?t = "constructor\<lparr>requests := [comicUrl 404]\<rparr>"
  have down: "getLatest unreachable constructor
              = (Inl (Error ''Failed to fetch latest comic: connect ECONNREFUSED''), ?s)"
    by (simp add: getLatest_def getLatest_cold_cases unreachable_def constructor_def)
  have down': "getById unreachable (JNumber 404) constructor
              = (Inl (Error ''Failed to fetch comic by ID: connect ECONNREFUSED''), ?t)"
    by (simp add: getById_def getById_cold_cases unreachable_def constructor_def)
  have up: "cache (snd (getLatest (small_archive 1000) constructor)) ''latest'' \<noteq> None"
    by (simp add: run_defs small_archive_def)
  then have changed: "cache (snd (getLatest (small_archive 1000) constructor)) \<noteq> cache constructor"
    by (auto simp: constructor_def)
  have up': "cache (snd (getById (small_archive 1000) (JNumber 2) constructor)) ''comic-2'' \<noteq> None"
    by (simp add: run_defs small_archive_def)
  then have changed': "cache (snd (getById (small_archive 1000) (JNumber 2) constructor))
                       \<noteq> cache constructor"
    by (auto simp: constructor_def)
  from cache_changes_only_on_success[of unreachable constructor "JNumber 404"] down down'
  have kept: "cache ?s = cache constructor \<and> cache ?t = cache constructor"
    by blast
  from cache_changes_only_on_success[of "small_archive 1000" constructor "JNumber 2"]
    changed changed'
  have fetched: "requests (snd (getLatest (small_archive 1000) constructor))
                   = requests constructor @ [latestUrl]
               \<and> requests (snd (getById (small_archive 1000) (JNumber 2) constructor))
                   = requests constructor @ [comicUrl \<lfloor>number (JNumber 2)\<rfloor>]"
    by blast
  from kept fetched up up' show ?thesis
    unfolding down down' by (simp add: constructor_def)
qed

section \<open>Claims about getRandom\<close>

text \<open>
  C3.  The latest comic is number 807, the random draw 1/2 picks id 404, and the request
  for it is answered with status 404.  \<open>getRandom\<close> does not try another id and does
  not fall back to the latest comic: after this one draw it fails with
  "Failed to fetch random comic: Failed to fetch comic by ID: Comic not found".  The test
  \<^verbatim>\<open>e.message === 'Comic not found'\<close> of line 110 never holds for an error of
  \<open>getById\<close> (\<open>getById_never_plain_not_found\<close>), so that the loop makes one
  attempt whatever happens (\<open>getRandom_loop_single_attempt\<close>).
\<close>

theorem getRandom_fails_on_first_missing:
  "fst (getRandom gap_archive constructor)
     = Inl (Error ''Failed to fetch random comic: Failed to fetch comic by ID: Comic not found'')
   \<and> requests (snd (getRandom gap_archive constructor))
     = [''https://xkcd.com/info.0.json'', ''https://xkcd.com/404/info.0.json'']
   \<and> draws (snd (getRandom gap_archive constructor)) = 1"
proof -
  have half: "\<lfloor>(807::rat) / 2\<rfloor> = 403"
    by (simp add: floor_eq_iff)
  show ?thesis
    by (simp add: run_defs getRandom_def getRandom_loop_pos gap_archive_def half)
qed

text \<open>In particular the result is an error, not the latest comic.\<close>

theorem getRandom_fails_on_first_missing_witness:
  "isl (fst (getRandom gap_archive constructor))
   \<and> fst (getRandom gap_archive constructor) \<noteq> Inr (processComic (sample_raw 807 ''Connected''))"
  using getRandom_fails_on_first_missing by simp

section \<open>Claims about search\<close>

text \<open>
  C4.  The latest comic is number 2 and the request for comic 2 is answered with status
  503, so that \<open>getById\<close> fails for it with an error that is not a not-found error.
  \<open>search\<close> does not fail: it goes on to comic 1 and returns it.
\<close>

theorem search_swallows_server_error:
  "fst (getById flaky_archive (JNumber 2) (snd (getLatest flaky_archive constructor)))
     = Inl (Error ''Failed to fetch comic by ID: HTTP 503: Service Unavailable'')
   \<and> map_option fst (search flaky_archive (JString ''python'') JUndefined JUndefined constructor)
     = Some (Inr \<lparr>query = ''python'', results = [processComic (sample_raw 1 ''Python'')],
                  total = 1,
                  pagination = \<lparr>page = 1, limit = 10, pages = 1, offset = Finite 0\<rparr>\<rparr>)"
proof -
  let ?s1 = "constructor\<lparr>requests := [latestUrl], ticks := 1,
               cache := [''latest'' \<mapsto> \<lparr>data = processComic (sample_raw 2 ''Petit Trees''),
                                           timestamp = 0\<rparr>],
               nextCachedPenalty := True, slept := 20\<rparr>"
  have latest: "getLatest flaky_archive constructor
                  = (Inr (processComic (sample_raw 2 ''Petit Trees'')), ?s1)"
    by (simp add: run_defs flaky_archive_def)
  have failing: "fst (getById flaky_archive (JNumber 2) ?s1)
                   = Inl (Error ''Failed to fetch comic by ID: HTTP 503: Service Unavailable'')"
    by (simp add: run_defs flaky_archive_def)
  have scan: "map_option fst (search_scan flaky_archive ''python'' 2 1 [] ?s1)
                = Some [processComic (sample_raw 1 ''Python'')]"
    by (simp add: run_defs search_defs flaky_archive_def)
  from search_from_parts[OF _ python_query(1) _ _ python_query(2) latest _ _ scan,
      of JUndefined JUndefined]
  have "map_option fst (search flaky_archive (JString ''python'') JUndefined JUndefined constructor)
          = Some (Inr \<lparr>query = ''python'', results = [processComic (sample_raw 1 ''Python'')],
                       total = 1,
                       pagination = \<lparr>page = 1, limit = 10, pages = 1, offset = Finite 0\<rparr>\<rparr>)"
    by (simp add: flaky_archive_def processComic_def sample_raw_def search_defs)
  with failing show ?thesis
    unfolding latest by simp
qed

theorem search_swallows_server_error_witness:
  "isl (fst (getById flaky_archive (JNumber 2) (snd (getLatest flaky_archive constructor))))
   \<and> (\<exists>r s. search flaky_archive (JString ''python'') JUndefined JUndefined constructor
               = Some (Inr r, s))"
  using search_swallows_server_error by auto

text \<open>
  C6.  A query whose trimmed length is 0 or more than 100 makes \<open>search\<close> fail with
  the error "Invalid search query" and leaves the whole state as it was, so nothing is
  requested upstream; a query whose trimmed length lies between 1 and 100 never fails
  with that error.  The query is trimmed as JavaScript trims it, the no-break space
  included.
\<close>

theorem search_query_validation:
  assumes "fetch_binding w = Function"
  shows "(length (trim qs) = 0 \<or> length (trim qs) > 100
            \<longrightarrow> search w (JString qs) pv lv s = Some (Inl (Error ''Invalid search query''), s))
       \<and> (1 \<le> length (trim qs) \<and> length (trim qs) \<le> 100
            \<longrightarrow> (\<forall>s'. search w (JString qs) pv lv s
                        \<noteq> Some (Inl (Error ''Invalid search query''), s')))"
proof (intro conjI impI allI)
  assume "length (trim qs) = 0 \<or> length (trim qs) > 100"
  with assms
  show "search w (JString qs) pv lv s = Some (Inl (Error ''Invalid search query''), s)"
    by (auto simp: search_def Let_def)
next
  fix s'
  assume valid: "1 \<le> length (trim qs) \<and> length (trim qs) \<le> 100"
  show "search w (JString qs) pv lv s \<noteq> Some (Inl (Error ''Invalid search query''), s')"
  proof (cases "getLatest w s")
    case (Pair x s1)
    show ?thesis
    proof (cases x)
      case (Inl e)
      with Pair assms getLatest_error_message[of w s e s1]
      obtain m where "message e = ''Failed to fetch latest comic: '' @ m" by auto
      then have "e \<noteq> Error ''Invalid search query''" by auto
      with Pair Inl valid assms show ?thesis
        by (auto simp: search_def Let_def)
    next
      case (Inr latest)
      with Pair valid assms show ?thesis
        by (auto simp: search_def Let_def split: prod.splits option.splits)
    qed
  qed
qed

theorem search_query_validation_witness:
  "search gap_archive (JString '''') JUndefined JUndefined constructor
     = Some (Inl (Error ''Invalid search query''), constructor)
   \<and> search gap_archive (JString (replicate 101 (CHR '' ''))) JUndefined JUndefined constructor
     = Some (Inl (Error ''Invalid search query''), constructor)
   \<and> search gap_archive (JString [CHR 0xA0, CHR 0x09]) JUndefined JUndefined constructor
     = Some (Inl (Error ''Invalid search query''), constructor)
   \<and> search gap_archive (JString ''python'') JUndefined JUndefined constructor
     \<noteq> Some (Inl (Error ''Invalid search query''), constructor)"
proof -
  have binding: "fetch_binding gap_archive = Function"
    by (simp add: gap_archive_def)
  have empty: "length (trim '''') = 0 \<or> length (trim '''') > 100"
    by (simp add: trim_def)
  have blank: "length (trim (replicate 101 (CHR '' ''))) = 0
               \<or> length (trim (replicate 101 (CHR '' ''))) > 100"
    by (simp add: trim_spaces)
  have nbsp: "length (trim [CHR 0xA0, CHR 0x09]) = 0 \<or> length (trim [CHR 0xA0, CHR 0x09]) > 100"
    by (simp add: trim_def isSpace_def)
  have word: "1 \<le> length (trim ''python'') \<and> length (trim ''python'') \<le> 100"
    by (simp add: trim_def isSpace_def)
  from search_query_validation[OF binding, of "''''" JUndefined JUndefined constructor] empty
    search_query_validation[OF binding, of "replicate 101 (CHR '' '')" JUndefined JUndefined constructor] blank
    search_query_validation[OF binding, of "[CHR 0xA0, CHR 0x09]" JUndefined JUndefined constructor] nbsp
    search_query_validation[OF binding, of "''python''" JUndefined JUndefined constructor] word
  show ?thesis by blast
qed

text \<open>
  C7, as stated, fails in three places.  "limit is clamped to [1,50]" sends the limit 0
  to 1, whereas \<open>search\<close> with the limit 0 uses the default 10.
  "offset = (page - 1) * limit" fails for the page \<open>2^53\<close> and the limit 3: the offset
  is the product of doubles 27021597764222972, one less than \<open>(2^53 - 1) * 3\<close>.
  "results are ordered most-recent-id-first" fails when the upstream answers the request
  for comic 2 with comic 1 and the request for comic 1 with comic 2: the results carry
  the ids 1 and 2, in this order.
\<close>

theorem search_shape_fails:
  "map_option fst (search (small_archive 1000) (JString '' PYTHON '') (JNumber 1) (JNumber 0) constructor)
     = Some (Inr \<lparr>query = ''PYTHON'',
                  results = [processComic (sample_raw 3 ''Python Tools''),
                             processComic (sample_raw 1 ''python'')],
                  total = 2,
                  pagination = \<lparr>page = 1, limit = 10, pages = 1, offset = Finite 0\<rparr>\<rparr>)
   \<and> spec_clamp 1 50 0 = 1
   \<and> map_option fst (search (small_archive 1000) (JString '' PYTHON '')
                        (JNumber 9007199254740992) (JNumber 3) constructor)
     = Some (Inr \<lparr>query = ''PYTHON'', results = [], total = 2,
                  pagination = \<lparr>page = 9007199254740992, limit = 3, pages = 1,
                                offset = Finite 27021597764222972\<rparr>\<rparr>)
   \<and> (9007199254740992 - 1) * 3 = (27021597764222973 :: int)
   \<and> map_option fst (search mislabelled (JString ''python'') JUndefined JUndefined constructor)
     = Some (Inr \<lparr>query = ''python'',
                  results = [processComic (sample_raw 1 ''Python one''),
                             processComic (sample_raw 2 ''Python two'')],
                  total = 2,
                  pagination = \<lparr>page = 1, limit = 10, pages = 1, offset = Finite 0\<rparr>\<rparr>)
   \<and> map comic_id [processComic (sample_raw 1 ''Python one''),
                     processComic (sample_raw 2 ''Python two'')] = [1, 2]"
proof (intro conjI)
  show "map_option fst (search (small_archive 1000) (JString '' PYTHON '') (JNumber 1) (JNumber 0) constructor)
     = Some (Inr \<lparr>query = ''PYTHON'',
                  results = [processComic (sample_raw 3 ''Python Tools''),
                             processComic (sample_raw 1 ''python'')],
                  total = 2,
                  pagination = \<lparr>page = 1, limit = 10, pages = 1, offset = Finite 0\<rparr>\<rparr>)"
    by (simp add: small_archive_search paginate_def safePage_def safeLimit_def slice_def clip_def
          times_double_def plus_double_def overflow_def nearest_double_small)
  show "spec_clamp 1 50 0 = 1"
    by (simp add: spec_clamp_def)
  show "map_option fst (search (small_archive 1000) (JString '' PYTHON '')
                        (JNumber 9007199254740992) (JNumber 3) constructor)
     = Some (Inr \<lparr>query = ''PYTHON'', results = [], total = 2,
                  pagination = \<lparr>page = 9007199254740992, limit = 3, pages = 1,
                                offset = Finite 27021597764222972\<rparr>\<rparr>)"
    by (simp add: small_archive_search paginate_def safePage_def safeLimit_def slice_def clip_def
          times_double_def plus_double_def overflow_def nearest_double_small rounded_offset
          rounded_end)
  show "(9007199254740992 - 1) * 3 = (27021597764222973 :: int)"
    by simp
  show "map_option fst (search mislabelled (JString ''python'') JUndefined JUndefined constructor)
     = Some (Inr \<lparr>query = ''python'',
                  results = [processComic (sample_raw 1 ''Python one''),
                             processComic (sample_raw 2 ''Python two'')],
                  total = 2,
                  pagination = \<lparr>page = 1, limit = 10, pages = 1, offset = Finite 0\<rparr>\<rparr>)"
    by (rule mislabelled_search)
  show "map comic_id [processComic (sample_raw 1 ''Python one''),
                     processComic (sample_raw 2 ''Python two'')] = [1, 2]"
    by (simp add: processComic_def sample_raw_def)
qed

text \<open>
  C7, amended.  For every successful \<open>search\<close>: the page is the requested page when
  that is a positive integer and 1 otherwise (absent, not an integer, zero or negative);
  the limit is the smaller of the requested limit and 50 when the requested limit is a
  positive integer and 10 otherwise; so the page is at least 1 and the limit lies in
  [1,50]; the offset is the product of page - 1 and the limit in double arithmetic, which
  is (page - 1) * limit when that is below \<open>2^53\<close>; pages is the ceiling of the number of
  matches over the limit, and at least 1; the results are the matches collected by the
  scan, sliced from the offset to the offset plus the limit, which is the segment
  [(page - 1) * limit, page * limit) of the matches when page * limit is below \<open>2^53\<close>;
  total is the number of all matches; and the comics are in the order of the scan, which
  is strictly descending in their ids when the upstream answers the request for comic
  \<open>n\<close> with the comic numbered \<open>n\<close> and the cache holds the comics under their own
  numbers (as the cache of a new service does, and as every operation keeps it under such
  an upstream).
\<close>

theorem search_result_shape:
  assumes "search w (JString qs) pv lv s = Some (Inr r, s')"
  shows "\<exists>latest s1 matches.
           getLatest w s = (Inr latest, s1)
         \<and> search_scan w (toLowerCase (trim qs)) (comic_id latest)
              (max 1 (nearest_double (comic_id latest - 30))) [] s1 = Some (matches, s')
         \<and> page (pagination r)
             = (if Number_isInteger pv \<and> number pv > 0 then \<lfloor>number pv\<rfloor> else 1)
         \<and> limit (pagination r)
             = (if Number_isInteger lv \<and> number lv > 0 then min \<lfloor>number lv\<rfloor> 50 else 10)
         \<and> 1 \<le> page (pagination r)
         \<and> 1 \<le> limit (pagination r) \<and> limit (pagination r) \<le> 50
         \<and> offset (pagination r)
             = times_double (nearest_double (page (pagination r) - 1)) (limit (pagination r))
         \<and> ((page (pagination r) - 1) * limit (pagination r) < 2 ^ 53
              \<longrightarrow> offset (pagination r)
                    = Finite ((page (pagination r) - 1) * limit (pagination r)))
         \<and> pages (pagination r)
             = max 1 \<lceil>(of_nat (length matches) :: rat) / of_int (limit (pagination r))\<rceil>
         \<and> results r
             = slice matches (offset (pagination r))
                 (plus_double (offset (pagination r)) (limit (pagination r)))
         \<and> (page (pagination r) * limit (pagination r) < 2 ^ 53
              \<longrightarrow> results r
                    = take (nat (limit (pagination r)))
                        (drop (nat ((page (pagination r) - 1) * limit (pagination r))) matches))
         \<and> total r = int (length matches)
         \<and> (upstream_consistent w \<and> cache_consistent s
              \<longrightarrow> sorted_wrt (>) (map comic_id matches)
                \<and> sorted_wrt (>) (map comic_id (results r)))"
proof -
  from search_success[OF assms] obtain latest s1 matches where
    latest: "getLatest w s = (Inr latest, s1)" and
    scan: "search_scan w (toLowerCase (trim qs)) (comic_id latest)
             (max 1 (nearest_double (comic_id latest - 30))) [] s1 = Some (matches, s')" and
    r: "r = paginate (trim qs) (default_arg (JNumber 1) pv) (default_arg (JNumber 10) lv) matches"
    by blast
  define P where "P = safePage (default_arg (JNumber 1) pv)"
  define L where "L = safeLimit (default_arg (JNumber 10) lv)"
  have P1: "1 \<le> P" and L1: "1 \<le> L" and L50: "L \<le> 50"
    using safePage_ge_1 safeLimit_range by (simp_all add: P_def L_def)
  have pg: "page (pagination r) = P" and lm: "limit (pagination r) = L"
    and off: "offset (pagination r) = times_double (nearest_double (P - 1)) L"
    and pgs: "pages (pagination r) = max 1 \<lceil>(of_nat (length matches) :: rat) / of_int L\<rceil>"
    and tot: "total r = int (length matches)"
    and res: "results r = slice matches (times_double (nearest_double (P - 1)) L)
                            (plus_double (times_double (nearest_double (P - 1)) L) L)"
    by (simp_all add: r paginate_def Let_def P_def L_def)
  have exact: "times_double (nearest_double (P - 1)) L = Finite ((P - 1) * L)"
    if "(P - 1) * L < 2 ^ 53"
    using times_double_exact[OF _ L1 that] P1 by simp
  have exact_results: "results r = take (nat L) (drop (nat ((P - 1) * L)) matches)"
    if "P * L < 2 ^ 53"
  proof -
    have sum: "(P - 1) * L + L = P * L" by (simp add: algebra_simps)
    with that L1 have small: "(P - 1) * L < 2 ^ 53" by linarith
    from P1 L1 have "0 \<le> (P - 1) * L" by simp
    from slice_exact[OF this, of L matches] L1 that sum exact[OF small] res
    show ?thesis by simp
  qed
  have ordered: "sorted_wrt (>) (map comic_id matches)"
    if "upstream_consistent w" "cache_consistent s"
  proof -
    from that(2) latest have "cache_consistent s1"
      using getLatest_consistent[of s w] by simp
    with search_scan_sorted[OF scan _ that(1)] show ?thesis by simp
  qed
  have ordered': "sorted_wrt (>) (map comic_id (results r))"
    if "upstream_consistent w" "cache_consistent s"
    using ordered[OF that] unfolding res by (rule sorted_slice)
  have page_eq: "P = (if Number_isInteger pv \<and> number pv > 0 then \<lfloor>number pv\<rfloor> else 1)"
    by (simp add: P_def safePage_default)
  have limit_eq: "L = (if Number_isInteger lv \<and> number lv > 0 then min \<lfloor>number lv\<rfloor> 50 else 10)"
    by (simp add: L_def safeLimit_default)
  show ?thesis
    apply (rule exI[of _ latest], rule exI[of _ s1], rule exI[of _ matches])
    apply (simp only: pg lm)
    apply (intro conjI impI)
    using latest scan P1 L1 L50 off pgs tot res exact exact_results ordered ordered'
      page_eq limit_eq
    by (simp_all only:)
qed

theorem search_result_shape_witness:
  "map_option fst (search (small_archive 1000) (JString '' PYTHON '') (JNumber 1) (JNumber 10) constructor)
     = Some (Inr \<lparr>query = ''PYTHON'',
                  results = [processComic (sample_raw 3 ''Python Tools''),
                             processComic (sample_raw 1 ''python'')],
                  total = 2,
                  pagination = \<lparr>page = 1, limit = 10, pages = 1, offset = Finite 0\<rparr>\<rparr>)
   \<and> (1 - 1) * 10 < (2 :: int) ^ 53 \<and> 1 * 10 < (2 :: int) ^ 53
   \<and> upstream_consistent (small_archive 1000) \<and> cache_consistent constructor
   \<and> sorted_wrt (>) (map comic_id [processComic (sample_raw 3 ''Python Tools''),
                                   processComic (sample_raw 1 ''python'')])"
proof -
  let ?r = "\<lparr>query = ''PYTHON'',
              results = [processComic (sample_raw 3 ''Python Tools''),
                         processComic (sample_raw 1 ''python'')],
              total = 2,
              pagination = \<lparr>page = 1, limit = 10, pages = 1, offset = Finite 0\<rparr>\<rparr>"
  have run: "map_option fst (search (small_archive 1000) (JString '' PYTHON '') (JNumber 1)
                               (JNumber 10) constructor) = Some (Inr ?r)"
    by (simp add: small_archive_search paginate_def safePage_def safeLimit_def slice_def clip_def
          times_double_def plus_double_def overflow_def nearest_double_small)
  then obtain s' where "search (small_archive 1000) (JString '' PYTHON '') (JNumber 1)
                          (JNumber 10) constructor = Some (Inr ?r, s')"
    by (auto simp: map_option_eq_Some prod_eq_iff)
  from search_result_shape[OF this]
  have "upstream_consistent (small_archive 1000) \<and> cache_consistent constructor
          \<longrightarrow> sorted_wrt (>) (map comic_id (results ?r))"
    by blast
  with small_archive_consistent constructor_consistent run show ?thesis
    by simp
qed

text \<open>
  C10, as stated, fails.  For the page 5/2 and the limit 10 the offset
  (page - 1) * limit is 15, beyond the two matches, yet \<open>search\<close> uses the page 1,
  returns both matches and echoes the page 1.  And when the latest comic has the number
  \<open>2^53 + 4\<close> and no comic is found, so that every offset is at or beyond the number of
  matches, \<open>search\<close> does not return for a valid query: \<^verbatim>\<open>id--\<close> leaves that double as
  it is.
\<close>

theorem search_beyond_end_fails:
  "map_option fst (search (small_archive 1000) (JString '' PYTHON '') (JNumber (5 / 2))
                     (JNumber 10) constructor)
     = Some (Inr \<lparr>query = ''PYTHON'',
                  results = [processComic (sample_raw 3 ''Python Tools''),
                             processComic (sample_raw 1 ''python'')],
                  total = 2,
                  pagination = \<lparr>page = 1, limit = 10, pages = 1, offset = Finite 0\<rparr>\<rparr>)
   \<and> (2 :: rat) \<le> (5 / 2 - 1) * 10
   \<and> search huge_archive (JString ''python'') JUndefined JUndefined constructor = None"
proof (intro conjI)
  show "map_option fst (search (small_archive 1000) (JString '' PYTHON '') (JNumber (5 / 2))
                     (JNumber 10) constructor)
     = Some (Inr \<lparr>query = ''PYTHON'',
                  results = [processComic (sample_raw 3 ''Python Tools''),
                             processComic (sample_raw 1 ''python'')],
                  total = 2,
                  pagination = \<lparr>page = 1, limit = 10, pages = 1, offset = Finite 0\<rparr>\<rparr>)"
    by (simp add: small_archive_search paginate_def safePage_def safeLimit_def slice_def clip_def
          times_double_def plus_double_def overflow_def nearest_double_small floor_five_halves)
  show "(2 :: rat) \<le> (5 / 2 - 1) * 10"
    by simp
  show "search huge_archive (JString ''python'') JUndefined JUndefined constructor = None"
    by (rule huge_archive_search)
qed

text \<open>
  C10, amended.  For a valid query, whenever \<open>getLatest\<close> has delivered a latest comic
  whose number is at most \<open>2^53\<close>, the scan returns its matches, and a requested page
  \<open>p\<close> that is a positive integer whose offset (p - 1) * limit is at or beyond the
  number of matches does not make \<open>search\<close> fail: the results are empty, total is the
  number of all matches, pages is max 1 (ceiling (total / limit)), and the page echoed is
  \<open>p\<close> itself; the limit is the one that \<open>search\<close> uses.
\<close>

theorem search_page_beyond_end:
  assumes "fetch_binding w = Function"
    and "1 \<le> length (trim qs)" and "length (trim qs) \<le> 100"
    and "getLatest w s = (Inr latest, s1)"
    and "comic_id latest \<le> 2 ^ 53"
    and "1 \<le> p"
  shows "\<exists>matches s2 r.
           search_scan w (toLowerCase (trim qs)) (comic_id latest)
             (max 1 (nearest_double (comic_id latest - 30))) [] s1 = Some (matches, s2)
         \<and> search w (JString qs) (JNumber (of_int p)) lv s = Some (Inr r, s2)
         \<and> query r = trim qs
         \<and> total r = int (length matches)
         \<and> page (pagination r) = p
         \<and> limit (pagination r) = safeLimit (default_arg (JNumber 10) lv)
         \<and> pages (pagination r)
             = max 1 \<lceil>(of_nat (length matches) :: rat) / of_int (limit (pagination r))\<rceil>
         \<and> (int (length matches) \<le> (p - 1) * limit (pagination r) \<longrightarrow> results r = [])"
proof -
  define L where "L = safeLimit (default_arg (JNumber 10) lv)"
  have L1: "1 \<le> L" using safeLimit_range by (simp add: L_def)
  have "1 \<le> max 1 (nearest_double (comic_id latest - 30))" by simp
  from search_scan_returns[OF this assms(5)] obtain matches s2 where
    scan: "search_scan w (toLowerCase (trim qs)) (comic_id latest)
             (max 1 (nearest_double (comic_id latest - 30))) [] s1 = Some (matches, s2)" and
    "length matches
       \<le> length ([] :: comic list)
           + nat (comic_id latest - max 1 (nearest_double (comic_id latest - 30)) + 1)"
    by fastforce
  with search_window[OF assms(5)] have few: "length matches \<le> 31" by simp
  define r where "r = paginate (trim qs) (default_arg (JNumber 1) (JNumber (of_int p)))
                        (default_arg (JNumber 10) lv) matches"
  have run: "search w (JString qs) (JNumber (of_int p)) lv s = Some (Inr r, s2)"
    unfolding r_def by (rule search_run[OF assms(1-4) scan])
  have P: "safePage (JNumber (of_int p)) = p"
    using assms(6) by (simp add: safePage_def)
  have shape: "query r = trim qs" "total r = int (length matches)" "page (pagination r) = p"
    "limit (pagination r) = L"
    "pages (pagination r) = max 1 \<lceil>(of_nat (length matches) :: rat) / of_int L\<rceil>"
    "results r = slice matches (times_double (nearest_double (p - 1)) L)
                   (plus_double (times_double (nearest_double (p - 1)) L) L)"
    by (simp_all add: r_def paginate_def Let_def P L_def)
  have empty: "results r = []" if "int (length matches) \<le> (p - 1) * L"
  proof -
    from assms(6) have "0 \<le> p - 1" by simp
    from few have "length matches < 2 ^ 53" by simp
    from times_double_beyond[OF \<open>0 \<le> p - 1\<close> L1 that this]
    have "at_or_beyond (times_double (nearest_double (p - 1)) L) (length matches)" .
    then show ?thesis unfolding shape(6) by (rule slice_beyond)
  qed
  show ?thesis
    apply (rule exI[of _ matches], rule exI[of _ s2], rule exI[of _ r])
    apply (simp only: shape(4))
    apply (intro conjI impI)
    using scan run shape empty
    by (simp_all only: L_def)
qed

theorem search_page_beyond_end_witness:
  "map_option fst (search (small_archive 1000) (JString '' PYTHON '') (JNumber 5) (JNumber 1) constructor)
     = Some (Inr \<lparr>query = ''PYTHON'', results = [], total = 2,
                  pagination = \<lparr>page = 5, limit = 1, pages = 2, offset = Finite 4\<rparr>\<rparr>)
   \<and> comic_id (processComic (sample_raw 3 ''Python Tools'')) \<le> 2 ^ 53"
proof -
  let ?m = "[processComic (sample_raw 3 ''Python Tools''), processComic (sample_raw 1 ''python'')]"
  have trimmed: "trim '' PYTHON '' = ''PYTHON''"
    by (simp add: trim_def isSpace_def)
  have small: "comic_id (processComic (sample_raw 3 ''Python Tools'')) \<le> 2 ^ 53"
    by (simp add: processComic_def sample_raw_def)
  have binding: "fetch_binding (small_archive 1000) = Function"
    by (simp add: small_archive_def)
  have len: "1 \<le> length (trim '' PYTHON '')" "length (trim '' PYTHON '') \<le> 100"
    by (simp_all add: trimmed)
  have pos: "(1 :: int) \<le> 5" by simp
  from search_page_beyond_end[OF binding len small_archive_latest small pos, of "JNumber 1"]
  obtain matches :: "comic list" and s2 r where
    run': "search (small_archive 1000) (JString '' PYTHON '') (JNumber (of_int 5)) (JNumber 1)
            constructor = Some (Inr r, s2)" and
    tot: "total r = int (length matches)" and
    empty: "int (length matches) \<le> (5 - 1) * limit (pagination r) \<longrightarrow> results r = []"
    by blast
  from run' have run: "search (small_archive 1000) (JString '' PYTHON '') (JNumber 5) (JNumber 1)
            constructor = Some (Inr r, s2)" by simp
  from run small_archive_search[of 1000 "JNumber 5" "JNumber 1"]
  have r: "r = paginate ''PYTHON'' (default_arg (JNumber 1) (JNumber 5))
                 (default_arg (JNumber 10) (JNumber 1)) ?m"
    by simp
  have ceil: "\<lceil>2 :: rat\<rceil> = 2" by simp
  have fields: "query r = ''PYTHON''" "total r = 2"
    "pagination r = \<lparr>page = 5, limit = 1, pages = 2, offset = Finite 4\<rparr>"
    by (simp_all add: r paginate_def safePage_def safeLimit_def Let_def
          times_double_def overflow_def nearest_double_small)
  from tot fields(2) have "int (length matches) = 2" by simp
  with empty fields(3) have "results r = []" by simp
  with fields have "r = \<lparr>query = ''PYTHON'', results = [], total = 2,
                          pagination = \<lparr>page = 5, limit = 1, pages = 2, offset = Finite 4\<rparr>\<rparr>"
    by (cases r) simp
  with run small show ?thesis by simp
qed

end
